theory Spec2Isabelle
  imports Main
begin

section \<open>Tic-Tac-Toe in the terminal: the game engine of main.py\<close>

text \<open>
  The development follows \<^verbatim>\<open>src/main.py\<close>: the classes \<^verbatim>\<open>Player\<close>, \<^verbatim>\<open>Board\<close>,
  \<^verbatim>\<open>Game\<close>, the context manager \<^verbatim>\<open>dbopen\<close> and the part of \<^verbatim>\<open>main\<close> that
  builds the two players. Calls that only write to the terminal (\<^verbatim>\<open>clear_screen\<close>,
  \<^verbatim>\<open>print\<close>, \<^verbatim>\<open>Board.draw\<close>, the table of \<^verbatim>\<open>draw_scoreboard\<close>) change no state and
  are left out; every read from the terminal (\<^verbatim>\<open>input\<close>, \<^verbatim>\<open>pick.pick\<close>) and every
  access to the database is modelled.
\<close>

subsection \<open>Typed move lines\<close>

text \<open>
  A line typed at a move prompt is modelled as a list of code points below 256
  (\<^typ>\<open>string\<close>, a \<^typ>\<open>char\<close> being the code point). \<^verbatim>\<open>str.lower\<close> maps the
  capital letters A-Z and the capital letters of the range 192-222 (all but the
  multiplication sign 215) to the letter 32 places further on, and leaves every other
  code point below 256 alone.
\<close>

definition in_range :: "nat \<Rightarrow> nat \<Rightarrow> nat \<Rightarrow> bool" where
  "in_range lo hi n = (lo \<le> n \<and> n \<le> hi)"

definition is_upper :: "char \<Rightarrow> bool" where
  "is_upper c = (in_range 65 90 (of_char c) \<or> (in_range 192 222 (of_char c) \<and> of_char c \<noteq> (215::nat)))"

definition lower_char :: "char \<Rightarrow> char" where
  "lower_char c = (if is_upper c then char_of (of_char c + (32::nat)) else c)"

definition lower :: "string \<Rightarrow> string" where
  "lower s = map lower_char s"

text \<open>
  \<^verbatim>\<open>str.isdigit\<close> holds for a non-empty string of digits. Below code point 256 the
  digits are the ten decimal digits 48-57 and the superscript digits 178, 179 and 185.
  \<^verbatim>\<open>int\<close> reads decimal digits only and raises \<^verbatim>\<open>ValueError\<close> on a superscript digit
  (\<open>py_int\<close> models \<^verbatim>\<open>int\<close> on the strings that reach it, those that passed
  \<^verbatim>\<open>isdigit\<close>).
\<close>

datatype error = ValueError | TypeError | IntegrityError | IndexError | EOFError

definition is_decimal :: "char \<Rightarrow> bool" where
  "is_decimal c = in_range 48 57 (of_char c)"

definition is_digit :: "char \<Rightarrow> bool" where
  "is_digit c = (is_decimal c \<or> of_char c = (178::nat) \<or> of_char c = (179::nat) \<or> of_char c = (185::nat))"

definition isdigit :: "string \<Rightarrow> bool" where
  "isdigit s = (s \<noteq> [] \<and> list_all is_digit s)"

definition digit_val :: "char \<Rightarrow> int" where
  "digit_val c = int (of_char c) - 48"

definition py_int :: "string \<Rightarrow> error + int" where
  "py_int s = (if s \<noteq> [] \<and> list_all is_decimal s
               then Inr (foldl (\<lambda>acc c. 10 * acc + digit_val c) 0 s)
               else Inl ValueError)"

subsection \<open>Names\<close>

text \<open>
  A name is a Python \<^verbatim>\<open>str\<close> that the program stores and shows: a list of Unicode
  code points of any size. \<open>str\<close> turns a string literal of the source into its code
  points.
\<close>

type_synonym unicode = "nat list"

definition str :: "string \<Rightarrow> unicode" where
  "str s = map of_char s"

text \<open>
  \<^verbatim>\<open>str.title\<close> and \<^verbatim>\<open>str.lower\<close> read the case tables of the interpreter. Below
  code point 256 the tables are written out here; beyond, they are a parameter of the
  model, named after the functions of CPython that read them: \<open>ext_title c\<close> is the
  title-case form of the code point \<open>c\<close> (\<^verbatim>\<open>_PyUnicode_ToTitleFull\<close>), \<open>ext_lower s i\<close>
  the lower-case form of the character at position \<open>i\<close> of the string \<open>s\<close>
  (\<^verbatim>\<open>lower_ucs4\<close>, which looks at the neighbours of a capital sigma), and \<open>ext_cased c\<close>
  tells whether \<open>c\<close> is cased (\<^verbatim>\<open>_PyUnicode_IsCased\<close>). A form can be several code
  points long.
\<close>

record casing =
  ext_title :: "nat \<Rightarrow> unicode"
  ext_lower :: "unicode \<Rightarrow> nat \<Rightarrow> unicode"
  ext_cased :: "nat \<Rightarrow> bool"

text \<open>
  Below 256 the capital letters are A-Z and 192-222 without 215, the small letters are
  a-z and 224-254 without 247, and the cased code points are the letters and 170, 181,
  186, 223, 255. A small letter has the capital 32 places before it as its title-case
  form, but for the micro sign 181 (capital mu, 924), the sharp s 223 (the two letters
  \<^verbatim>\<open>Ss\<close>) and the y with diaeresis 255 (its capital, 376).
\<close>

definition upper_letter :: "nat \<Rightarrow> bool" where
  "upper_letter c = (in_range 65 90 c \<or> (in_range 192 222 c \<and> c \<noteq> 215))"

definition lower_letter :: "nat \<Rightarrow> bool" where
  "lower_letter c = (in_range 97 122 c \<or> (in_range 224 254 c \<and> c \<noteq> 247))"

definition title_of :: "casing \<Rightarrow> nat \<Rightarrow> unicode" where
  "title_of U c =
     (if 256 \<le> c then ext_title U c
      else if c = 181 then [924]
      else if c = 223 then [83, 115]
      else if c = 255 then [376]
      else if lower_letter c then [c - 32]
      else [c])"

definition lower_ucs4 :: "casing \<Rightarrow> unicode \<Rightarrow> nat \<Rightarrow> nat \<Rightarrow> unicode" where
  "lower_ucs4 U s i c =
     (if 256 \<le> c then ext_lower U s i
      else if upper_letter c then [c + 32]
      else [c])"

definition is_cased :: "casing \<Rightarrow> nat \<Rightarrow> bool" where
  "is_cased U c =
     (if 256 \<le> c then ext_cased U c
      else upper_letter c \<or> lower_letter c \<or> c = 170 \<or> c = 181 \<or> c = 186 \<or> c = 223 \<or> c = 255)"

text \<open>
  \<^verbatim>\<open>str.title\<close> walks the string once, from position 0: a character that follows a
  cased character is replaced by its lower-case form, any other character by its
  title-case form. No character is skipped.
\<close>

fun do_title :: "casing \<Rightarrow> unicode \<Rightarrow> bool \<Rightarrow> nat \<Rightarrow> unicode \<Rightarrow> unicode" where
  "do_title U s previous_is_cased i [] = []"
| "do_title U s previous_is_cased i (c # cs) =
     (if previous_is_cased then lower_ucs4 U s i c else title_of U c)
       @ do_title U s (is_cased U c) (Suc i) cs"

definition title :: "casing \<Rightarrow> unicode \<Rightarrow> unicode" where
  "title U s = do_title U s False 0 s"

text \<open>\<^verbatim>\<open>str.lower\<close> of a name replaces every character by its lower-case form.\<close>

fun do_lower :: "casing \<Rightarrow> unicode \<Rightarrow> nat \<Rightarrow> unicode \<Rightarrow> unicode" where
  "do_lower U s i [] = []"
| "do_lower U s i (c # cs) = lower_ucs4 U s i c @ do_lower U s (Suc i) cs"

definition str_lower :: "casing \<Rightarrow> unicode \<Rightarrow> unicode" where
  "str_lower U s = do_lower U s 0 s"

subsection \<open>Player\<close>

text \<open>
  The two markers are the strings \<^verbatim>\<open>blueify(boldify("X"))\<close> and
  \<^verbatim>\<open>redify(boldify("O"))\<close>, the only markers the program builds.
\<close>

datatype marker = Marker_X | Marker_O

record player =
  name :: unicode
  marker :: marker
  moves :: "int list"
  score :: int

definition Player_init :: "casing \<Rightarrow> unicode \<Rightarrow> marker \<Rightarrow> player" where
  "Player_init U nm mk = \<lparr>name = title U nm, marker = mk, moves = [], score = 0\<rparr>"

definition Player_add_move :: "int \<Rightarrow> player \<Rightarrow> player" where
  "Player_add_move move p = p\<lparr>moves := sort (moves p @ [move])\<rparr>"

definition Player_reset_moves :: "player \<Rightarrow> player" where
  "Player_reset_moves p = p\<lparr>moves := []\<rparr>"

subsection \<open>Winning combinations and \<open>Board.check_winner\<close>\<close>

definition winning_combos :: "(int \<times> int \<times> int) list" where
  "winning_combos =
     [(1, 2, 3), (4, 5, 6), (7, 8, 9),
      (1, 4, 7), (2, 5, 8), (3, 6, 9),
      (1, 5, 9), (3, 5, 7)]"

text \<open>
  \<^verbatim>\<open>check_winner\<close> returns the tuple \<^verbatim>\<open>(True, combo)\<close> from inside its loop and the
  bare value \<^verbatim>\<open>False\<close> after it. Its caller tests the result with \<^verbatim>\<open>if winner:\<close>, so
  the two shapes are kept apart: a tuple of two components is true in a condition
  whatever it holds, a bare Boolean is its own value.
\<close>

datatype check_result = Bare bool | Tuple bool "(int \<times> int \<times> int) option"

fun truthy :: "check_result \<Rightarrow> bool" where
  "truthy (Bare b) = b"
| "truthy (Tuple b c) = True"

fun combo_cells :: "int \<times> int \<times> int \<Rightarrow> int list" where
  "combo_cells (a, b, c) = [a, b, c]"

definition satisfied :: "player \<Rightarrow> int \<times> int \<times> int \<Rightarrow> bool" where
  "satisfied p combo = list_all (\<lambda>move. move \<in> set (moves p)) (combo_cells combo)"

fun check_combos :: "player \<Rightarrow> (int \<times> int \<times> int) list \<Rightarrow> check_result" where
  "check_combos p [] = Bare False"
| "check_combos p (combo # combos) =
     (if satisfied p combo then Tuple True (Some combo) else check_combos p combos)"

definition check_winner :: "player \<Rightarrow> check_result" where
  "check_winner p = check_combos p winning_combos"


subsection \<open>Board\<close>

text \<open>
  The board is the dictionary \<^verbatim>\<open>self.board\<close>, from cell to marker.
  \<^verbatim>\<open>Board.add_move\<close> changes the board and the player object it is given; the model
  returns the answer with the new board and the new player.
\<close>

type_synonym board = "int \<rightharpoonup> marker"

definition Board_init :: board where
  "Board_init = Map.empty"

definition Board_add_move :: "int \<Rightarrow> board \<Rightarrow> player \<Rightarrow> bool \<times> board \<times> player" where
  "Board_add_move move b p =
     (if move \<in> dom b then (False, b, p)
      else (True, b(move \<mapsto> marker p), Player_add_move move p))"

definition Board_is_full :: "board \<Rightarrow> bool" where
  "Board_is_full b = (card (dom b) = 9)"

subsection \<open>The store: \<open>dbopen\<close>, the two tables, \<open>reset_data\<close>\<close>

text \<open>
  The database file holds the tables \<^verbatim>\<open>scores\<close> and \<^verbatim>\<open>history\<close>, each a list of
  rows in insertion order. A connection works on a view of the tables; \<^verbatim>\<open>commit\<close>
  writes the view to the file and \<^verbatim>\<open>close\<close> ends the connection.
  The file is taken to be there and readable: \<^verbatim>\<open>connect\<close>, \<^verbatim>\<open>commit\<close> and
  \<^verbatim>\<open>close\<close> do not fail, and a statement fails only by the unique key of
  \<^verbatim>\<open>scores\<close>.
\<close>

type_synonym score_row = "unicode \<times> int"
type_synonym history_row = "unicode \<times> unicode \<times> unicode option \<times> int"

record tables =
  scores :: "score_row list"
  history :: "history_row list"

record connection =
  conn_view :: tables
  conn_open :: bool

definition sql_connect :: "tables \<Rightarrow> connection" where
  "sql_connect db = \<lparr>conn_view = db, conn_open = True\<rparr>"

definition conn_commit :: "connection \<Rightarrow> tables \<Rightarrow> tables" where
  "conn_commit conn db = conn_view conn"

definition conn_close :: "connection \<Rightarrow> connection" where
  "conn_close conn = conn\<lparr>conn_open := False\<rparr>"

definition dbopen_enter :: "tables \<Rightarrow> connection" where
  "dbopen_enter db = sql_connect db"

text \<open>
  \<^verbatim>\<open>__exit__\<close> commits, closes and returns \<^verbatim>\<open>None\<close>; the first component is the
  truth value of what it returns, which the \<^verbatim>\<open>with\<close> statement reads to decide whether
  an exception of the block is suppressed.
\<close>

definition dbopen_exit :: "connection \<Rightarrow> tables \<Rightarrow> bool \<times> connection \<times> tables" where
  "dbopen_exit conn db =
     (let db' = conn_commit conn db; conn' = conn_close conn in (False, conn', db'))"

text \<open>
  \<^verbatim>\<open>with dbopen(TTT_DB_PATH) as cursor: body\<close>. The body runs on the view of the
  connection and ends normally (\<open>Inr ()\<close>) or by an exception (\<open>Inl e\<close>), leaving the
  view as it was at that moment. On both ways out \<^verbatim>\<open>__exit__\<close> is called; an
  exception is raised again unless \<^verbatim>\<open>__exit__\<close> returned a true value.
\<close>

definition with_dbopen ::
  "(tables \<Rightarrow> (error + unit) \<times> tables) \<Rightarrow> tables \<Rightarrow> (error + unit) \<times> connection \<times> tables" where
  "with_dbopen body db =
     (let conn = dbopen_enter db;
          (r, view) = body (conn_view conn);
          (suppress, conn', db') = dbopen_exit (conn\<lparr>conn_view := view\<rparr>) db
      in (case r of
            Inl e \<Rightarrow> if suppress then Inr () else Inl e
          | Inr u \<Rightarrow> Inr u,
          conn', db'))"

definition delete_scores :: "tables \<Rightarrow> tables" where
  "delete_scores t = t\<lparr>scores := []\<rparr>"

definition delete_history :: "tables \<Rightarrow> tables" where
  "delete_history t = t\<lparr>history := []\<rparr>"

definition reset_body :: "string option \<Rightarrow> tables \<Rightarrow> (error + unit) \<times> tables" where
  "reset_body specific_data t =
     (if specific_data = None then (Inr (), delete_history (delete_scores t))
      else if specific_data = Some ''Leaderboard'' then (Inr (), delete_scores t)
      else if specific_data = Some ''History'' then (Inr (), delete_history t)
      else (Inl ValueError, t))"

definition reset_data :: "string option \<Rightarrow> tables \<Rightarrow> (error + unit) \<times> tables" where
  "reset_data specific_data db =
     (let (r, conn, db') = with_dbopen (reset_body specific_data) db in (r, db'))"

text \<open>
  Modelled from the spec: the schema of the table \<^verbatim>\<open>scores\<close> (the database file
  \<^verbatim>\<open>tictactoe.db\<close> that declares it is not among the sources). The column \<^verbatim>\<open>name\<close>
  is a unique key, so \<^verbatim>\<open>INSERT INTO scores VALUES (?, 1)\<close> raises
  \<^verbatim>\<open>IntegrityError\<close> when a row of that name exists and adds the row otherwise.
\<close>

definition insert_score :: "unicode \<Rightarrow> tables \<Rightarrow> error + tables" where
  "insert_score nm t =
     (if nm \<in> set (map fst (scores t)) then Inl IntegrityError
      else Inr (t\<lparr>scores := scores t @ [(nm, 1)]\<rparr>))"

definition bump :: "unicode \<Rightarrow> score_row \<Rightarrow> score_row" where
  "bump nm row = (if fst row = nm then (fst row, snd row + 1) else row)"

definition update_score :: "unicode \<Rightarrow> tables \<Rightarrow> tables" where
  "update_score nm t = t\<lparr>scores := map (bump nm) (scores t)\<rparr>"

definition insert_history :: "history_row \<Rightarrow> tables \<Rightarrow> tables" where
  "insert_history row t = t\<lparr>history := history t @ [row]\<rparr>"

subsection \<open>\<open>Player.add_score\<close>\<close>

definition add_score_body :: "unicode \<Rightarrow> tables \<Rightarrow> (error + unit) \<times> tables" where
  "add_score_body nm t =
     (case insert_score nm t of
        Inr t' \<Rightarrow> (Inr (), t')
      | Inl e \<Rightarrow> if e = IntegrityError then (Inr (), update_score nm t) else (Inl e, t))"

definition Player_add_score :: "player \<Rightarrow> tables \<Rightarrow> (error + unit) \<times> player \<times> tables" where
  "Player_add_score p db =
     (let p' = p\<lparr>score := score p + 1\<rparr>;
          (r, conn, db') = with_dbopen (add_score_body (name p')) db
      in (r, p', db'))"

subsection \<open>Game\<close>

text \<open>
  \<^verbatim>\<open>self.players\<close> is the list of the player objects, \<^verbatim>\<open>self.winner\<close> refers to one
  of them (its position in the list) or is \<^verbatim>\<open>None\<close>.
\<close>

record game =
  board :: board
  players :: "player list"
  winner :: "nat option"
  round_num :: int

definition Game_init :: "int \<Rightarrow> game" where
  "Game_init rn = \<lparr>board = Board_init, players = [], winner = None, round_num = rn\<rparr>"

text \<open>
  What the terminal and the clock supply besides the typed lines: \<open>now r\<close> is
  \<^verbatim>\<open>int(time.time())\<close> as \<^verbatim>\<open>save\<close> reads it once the round number has become \<open>r\<close>,
  and \<open>pick_index r\<close> is the index \<^verbatim>\<open>pick.pick\<close> returns for the rematch menu shown
  at round number \<open>r\<close>. The typed lines are a list; \<^verbatim>\<open>input\<close> at its end raises
  \<^verbatim>\<open>EOFError\<close>.
\<close>

record shell =
  now :: "int \<Rightarrow> int"
  pick_index :: "int \<Rightarrow> nat"

definition Game_save :: "shell \<Rightarrow> game \<Rightarrow> tables \<Rightarrow> (error + unit) \<times> game \<times> tables" where
  "Game_save sh g db =
     (let g1 = g\<lparr>round_num := round_num g + 1\<rparr>;
          timestamp = now sh (round_num g1)
      in if length (players g1) < 2 then (Inl IndexError, g1, db)
         else
           (let p1_name = name (players g1 ! 0);
                p2_name = name (players g1 ! 1);
                winner_name = (case winner g1 of Some k \<Rightarrow> Some (name (players g1 ! k)) | None \<Rightarrow> None);
                (r, conn, db') =
                   with_dbopen (\<lambda>t. (Inr (), insert_history (p1_name, p2_name, winner_name, timestamp) t)) db
            in (r, g1, db')))"

text \<open>\<^verbatim>\<open>self.board.add_move(int(move), cur_player)\<close>, the current player being \<open>players ! k\<close>.\<close>

definition place :: "int \<Rightarrow> nat \<Rightarrow> game \<Rightarrow> bool \<times> game" where
  "place move k g =
     (let (ok, b, p) = Board_add_move move (board g) (players g ! k)
      in (ok, g\<lparr>board := b, players := (players g)[k := p]\<rparr>))"

text \<open>\<^verbatim>\<open>for player in self.players: player.add_score()\<close>\<close>

fun add_score_all :: "player list \<Rightarrow> tables \<Rightarrow> (error + unit) \<times> player list \<times> tables" where
  "add_score_all [] db = (Inr (), [], db)"
| "add_score_all (p # ps) db =
     (let (r, p', db1) = Player_add_score p db
      in case r of
           Inl e \<Rightarrow> (Inl e, p' # ps, db1)
         | Inr u \<Rightarrow> (let (r2, ps', db2) = add_score_all ps db1 in (r2, p' # ps', db2)))"

datatype outcome = Aborted | Completed | Raised error

type_synonym result = "outcome \<times> string list \<times> game \<times> tables"

text \<open>\<^verbatim>\<open>self.save()\<close> and \<^verbatim>\<open>input("Press Enter key to continue...")\<close>, then \<^verbatim>\<open>break\<close>.\<close>

definition save_and_wait :: "shell \<Rightarrow> string list \<Rightarrow> game \<Rightarrow> tables \<Rightarrow> result" where
  "save_and_wait sh rest g db =
     (let (r, g1, db1) = Game_save sh g db
      in case r of
           Inl e \<Rightarrow> (Raised e, rest, g1, db1)
         | Inr u \<Rightarrow> (case rest of
                      [] \<Rightarrow> (Raised EOFError, [], g1, db1)
                    | enter # rest' \<Rightarrow> (Completed, rest', g1, db1)))"

text \<open>
  \<^verbatim>\<open>self.board.draw(round_num=self.round_num, winning_combo=winner[1])\<close> writes to
  the terminal only, but it can raise: \<^verbatim>\<open>winner[1]\<close> needs a tuple, and for each cell
  of the combination \<^verbatim>\<open>normalify\<close> slices the entry of the table, which is the marker
  string of an occupied cell and the integer of a free one, and an integer cannot be
  sliced (\<^verbatim>\<open>TypeError\<close>). The combinations have three cells, so the \<^verbatim>\<open>ValueError\<close> of
  \<^verbatim>\<open>draw\<close> is never raised.
\<close>

fun draw_winner :: "board \<Rightarrow> check_result \<Rightarrow> error + unit" where
  "draw_winner b (Bare v) = Inl TypeError"
| "draw_winner b (Tuple v None) = Inr ()"
| "draw_winner b (Tuple v (Some combo)) =
     (if list_all (\<lambda>index. index \<in> dom b) (combo_cells combo) then Inr () else Inl TypeError)"

text \<open>
  The part of the turn after a successful move (\<^verbatim>\<open>winner = self.board.check_winner\<close>
  to the second \<^verbatim>\<open>break\<close>): \<open>Some\<close> result when the round ends here, \<open>None\<close> when the
  outer loop goes on to the next player.
\<close>

definition conclude :: "shell \<Rightarrow> string list \<Rightarrow> nat \<Rightarrow> game \<Rightarrow> tables \<Rightarrow> result option" where
  "conclude sh rest k g db =
     (if truthy (check_winner (players g ! k)) then
        Some (let (r, p, db1) = Player_add_score (players g ! k) db;
                  g1 = g\<lparr>players := (players g)[k := p]\<rparr>
              in case r of
                   Inl e \<Rightarrow> (Raised e, rest, g1, db1)
                 | Inr u \<Rightarrow>
                     (case draw_winner (board g1) (check_winner (players g ! k)) of
                        Inl e \<Rightarrow> (Raised e, rest, g1, db1)
                      | Inr u \<Rightarrow> save_and_wait sh rest (g1\<lparr>winner := Some k\<rparr>) db1))
      else if Board_is_full (board g) then
        Some (let (r, ps, db1) = add_score_all (players g) db;
                  g1 = g\<lparr>players := ps\<rparr>
              in case r of
                   Inl e \<Rightarrow> (Raised e, rest, g1, db1)
                 | Inr u \<Rightarrow> save_and_wait sh rest g1 db1)
      else None)"

text \<open>\<^verbatim>\<open>next(players_iter)\<close> of \<^verbatim>\<open>itertools.cycle(self.players)\<close>.\<close>

definition next_player :: "nat \<Rightarrow> game \<Rightarrow> nat" where
  "next_player k g = (k + 1) mod length (players g)"

text \<open>
  The two nested \<^verbatim>\<open>while True\<close> loops of \<^verbatim>\<open>Game.start\<close>, from the prompt of the
  player \<open>players ! k\<close> on. Each \<^verbatim>\<open>input\<close> takes the next typed line.
\<close>

fun round_loop :: "shell \<Rightarrow> string list \<Rightarrow> nat \<Rightarrow> game \<Rightarrow> tables \<Rightarrow> result" where
  "round_loop sh [] k g db = (Raised EOFError, [], g, db)"
| "round_loop sh (move # rest) k g db =
     (if lower move = ''?stop'' then (Aborted, rest, g, db)
      else if isdigit move then
        (case py_int move of
           Inl e \<Rightarrow> (Raised e, rest, g, db)
         | Inr n \<Rightarrow>
             if 1 \<le> n \<and> n \<le> 9 then
               (let (ok, g1) = place n k g
                in if ok then
                     (case conclude sh rest k g1 db of
                        Some result \<Rightarrow> result
                      | None \<Rightarrow> round_loop sh rest (next_player k g1) g1 db)
                   else round_loop sh rest k g db)
             else round_loop sh rest k g db)
      else round_loop sh rest k g db)"

text \<open>
  The new game of an accepted rematch (\<^verbatim>\<open>Game(round_num=self.round_num)\<close> and the loop
  over \<^verbatim>\<open>enumerate(self.players[::-1])\<close>).
\<close>

definition rebind :: "nat \<times> player \<Rightarrow> player" where
  "rebind ip = (Player_reset_moves (snd ip))\<lparr>marker := (if fst ip = 0 then Marker_X else Marker_O)\<rparr>"

definition rematch :: "game \<Rightarrow> game" where
  "rematch g = (Game_init (round_num g))\<lparr>players := [] @ map rebind (enumerate 0 (rev (players g)))\<rparr>"

text \<open>
  \<^verbatim>\<open>Game.start\<close>. \<^verbatim>\<open>draw_scoreboard\<close> reads \<^verbatim>\<open>self.players[0]\<close> and
  \<^verbatim>\<open>self.players[1]\<close> before the first prompt, so a game of fewer than two players
  ends at once by \<^verbatim>\<open>IndexError\<close>. A completed round is followed by the rematch menu, an
  aborted one returns at once. The call of \<^verbatim>\<open>game.start()\<close> for the rematch is the
  recursive call; it comes to an end because every completed round has read typed lines.
\<close>

lemma save_and_wait_Completed:
  "save_and_wait sh rest g db = (Completed, rest', g', db') \<Longrightarrow> length rest' < length rest"
  by (auto simp: save_and_wait_def Let_def split: prod.splits sum.splits list.splits)

lemma conclude_Completed:
  "conclude sh rest k g db = Some (Completed, rest', g', db') \<Longrightarrow> length rest' < length rest"
  by (auto simp: conclude_def Let_def split: prod.splits sum.splits if_splits
      dest: save_and_wait_Completed)

lemma round_loop_Completed:
  "round_loop sh lines k g db = (Completed, rest', g', db') \<Longrightarrow> length rest' < length lines"
proof (induction lines arbitrary: k g)
  case Nil
  then show ?case by simp
next
  case (Cons move rest)
  from Cons.prems show ?case
    by (auto split: if_splits sum.splits prod.splits option.splits
        dest!: conclude_Completed Cons.IH)
qed

function Game_start :: "shell \<Rightarrow> string list \<Rightarrow> game \<Rightarrow> tables \<Rightarrow> result" where
  "Game_start sh lines g db =
     (if length (players g) < 2 then (Raised IndexError, lines, g, db)
      else
        (let (out, rest, g1, db1) = round_loop sh lines 0 g db
         in if out = Completed \<and> pick_index sh (round_num g1) = 0
            then Game_start sh rest (rematch g1) db1
            else (out, rest, g1, db1)))"
  by pat_completeness auto
termination
  by (relation "measure (\<lambda>(sh, lines, g, db). length lines)")
     (auto dest: round_loop_Completed [OF sym])

declare Game_start.simps [simp del]

subsection \<open>\<open>main\<close>: the two players of a new match\<close>

text \<open>
  \<^verbatim>\<open>main\<close> reads the two names. When the lower-case form of the first or of the second
  is \<^verbatim>\<open>?stop\<close> it goes back to the menu and builds no player (\<open>None\<close>); otherwise an
  empty name is replaced by its default and the two players are built, which become the
  players of the game \<^verbatim>\<open>main\<close> starts.
\<close>

definition default_name :: "unicode \<Rightarrow> unicode \<Rightarrow> unicode" where
  "default_name nm dflt = (if nm \<noteq> [] then nm else dflt)"

definition main_players :: "casing \<Rightarrow> unicode \<Rightarrow> unicode \<Rightarrow> player list option" where
  "main_players U name1 name2 =
     (if str_lower U name1 = str ''?stop'' then None
      else if str_lower U name2 = str ''?stop'' then None
      else Some [Player_init U (default_name name1 (str ''Player 1'')) Marker_X,
                 Player_init U (default_name name2 (str ''Player 2'')) Marker_O])"

subsection \<open>Sequences of moves\<close>

text \<open>
  A sequence of \<^verbatim>\<open>Board.add_move\<close> calls on one board, each by the player at the given
  position.
\<close>

fun add_moves :: "(nat \<times> int) list \<Rightarrow> game \<Rightarrow> game" where
  "add_moves [] g = g"
| "add_moves ((k, move) # calls) g = add_moves calls (snd (place move k g))"

subsection \<open>Two players, a shell and a position for the examples\<close>

definition alice :: player where
  "alice = \<lparr>name = str ''Alice'', marker = Marker_X, moves = [], score = 0\<rparr>"

definition bob :: player where
  "bob = \<lparr>name = str ''Bob'', marker = Marker_O, moves = [], score = 0\<rparr>"

definition quiet_shell :: shell where
  "quiet_shell = \<lparr>now = (\<lambda>r. 1700000000), pick_index = (\<lambda>r. 1)\<rparr>"

definition empty_db :: tables where
  "empty_db = \<lparr>scores = [], history = []\<rparr>"

text \<open>
  The position after the moves 1, 2, 3, 5, 4, 6, 8, 7 of a first round, Alice to move:
  only cell 9 is free, and neither player has a line or gets one by it.
\<close>

definition draw_position :: game where
  "draw_position =
     \<lparr>board = [1 \<mapsto> Marker_X, 2 \<mapsto> Marker_O, 3 \<mapsto> Marker_X, 5 \<mapsto> Marker_O,
               4 \<mapsto> Marker_X, 6 \<mapsto> Marker_O, 8 \<mapsto> Marker_X, 7 \<mapsto> Marker_O],
      players = [alice\<lparr>moves := [1, 3, 4, 8]\<rparr>, bob\<lparr>moves := [2, 5, 6, 7]\<rparr>],
      winner = None, round_num = 1\<rparr>"

text \<open>
  Case tables that leave every code point beyond 255 as it is and uncased, for the
  examples; a name of code points below 256 never consults them.
\<close>

definition plain_casing :: casing where
  "plain_casing = \<lparr>ext_title = (\<lambda>c. [c]), ext_lower = (\<lambda>s i. [s ! i]), ext_cased = (\<lambda>c. False)\<rparr>"

text \<open>A shell that accepts every rematch, and the game \<^verbatim>\<open>main\<close> starts for Alice and Bob.\<close>

definition eager_shell :: shell where
  "eager_shell = \<lparr>now = (\<lambda>r. 1700000000), pick_index = (\<lambda>r. 0)\<rparr>"

definition new_match :: game where
  "new_match = (Game_init 1)\<lparr>players := [alice, bob]\<rparr>"

subsection \<open>The board and the move lists agree\<close>

text \<open>
  The invariant behind the claims on the board: the board is finite, its cells are
  exactly the cells of the players' lists, every list is sorted without duplicates, the
  cells of a list carry the marker of its player, and two players share no cell.
\<close>

definition consistent :: "game \<Rightarrow> bool" where
  "consistent g \<longleftrightarrow>
     finite (dom (board g))
     \<and> (\<forall>c. c \<in> dom (board g) \<longleftrightarrow> (\<exists>i < length (players g). c \<in> set (moves (players g ! i))))
     \<and> (\<forall>i < length (players g).
           sorted (moves (players g ! i)) \<and> distinct (moves (players g ! i))
           \<and> (\<forall>c \<in> set (moves (players g ! i)). board g c = Some (marker (players g ! i)))
           \<and> (\<forall>j < length (players g). i \<noteq> j \<longrightarrow>
                 set (moves (players g ! i)) \<inter> set (moves (players g ! j)) = {}))"

subsection \<open>String literals\<close>

text \<open>Different literals of the source are different strings.\<close>

lemma str_eq_iff [simp]: "str s = str t \<longleftrightarrow> s = t"
proof -
  have "inj (of_char :: char \<Rightarrow> nat)"
    by (simp add: inj_on_def)
  then show ?thesis
    by (simp add: str_def inj_map_eq_map)
qed

lemma str_empty_iff [simp]: "str s = [] \<longleftrightarrow> s = []"
  by (simp add: str_def)

subsection \<open>Properties of \<open>check_winner\<close>\<close>

lemma satisfied_subset: "satisfied p combo \<longleftrightarrow> set (combo_cells combo) \<subseteq> set (moves p)"
  by (cases combo) (simp add: satisfied_def)

lemma check_combos_find:
  "check_combos p cs =
     (case find (satisfied p) cs of Some combo \<Rightarrow> Tuple True (Some combo) | None \<Rightarrow> Bare False)"
  by (induction cs) simp_all

lemma check_combos_shape:
  "check_combos p cs = Bare False \<or> (\<exists>combo. check_combos p cs = Tuple True (Some combo))"
  by (induction cs) auto

text \<open>
  Claim C1, as the code has it. \<open>check_winner\<close> returns the tuple \<open>(True, combo)\<close> exactly
  when \<open>combo\<close> is the first of the eight combinations, in the order rows (1,2,3), (4,5,6),
  (7,8,9), columns (1,4,7), (2,5,8), (3,6,9), diagonals (1,5,9), (3,5,7), all of whose
  cells are in the player's list of moves. When no combination is contained in the list
  it returns the bare value \<open>False\<close>, not a pair; these are its only two results.
\<close>

theorem check_winner_first_match:
  "winning_combos =
     [(1, 2, 3), (4, 5, 6), (7, 8, 9), (1, 4, 7), (2, 5, 8), (3, 6, 9), (1, 5, 9), (3, 5, 7)]
   \<and> (check_winner p = Tuple True (Some combo) \<longleftrightarrow>
        (\<exists>k < length winning_combos. winning_combos ! k = combo
            \<and> set (combo_cells combo) \<subseteq> set (moves p)
            \<and> (\<forall>j < k. \<not> set (combo_cells (winning_combos ! j)) \<subseteq> set (moves p))))
   \<and> (check_winner p = Bare False \<longleftrightarrow>
        (\<forall>c \<in> set winning_combos. \<not> set (combo_cells c) \<subseteq> set (moves p)))
   \<and> (check_winner p = Bare False \<or> (\<exists>c. check_winner p = Tuple True (Some c)))"
proof (intro conjI)
  show "winning_combos =
     [(1, 2, 3), (4, 5, 6), (7, 8, 9), (1, 4, 7), (2, 5, 8), (3, 6, 9), (1, 5, 9), (3, 5, 7)]"
    by (simp add: winning_combos_def)
next
  have "check_winner p = Tuple True (Some combo) \<longleftrightarrow> find (satisfied p) winning_combos = Some combo"
    by (simp add: check_winner_def check_combos_find split: option.splits)
  also have "\<dots> \<longleftrightarrow> (\<exists>k < length winning_combos. satisfied p (winning_combos ! k)
        \<and> combo = winning_combos ! k \<and> (\<forall>j < k. \<not> satisfied p (winning_combos ! j)))"
    by (rule find_Some_iff)
  also have "\<dots> \<longleftrightarrow> (\<exists>k < length winning_combos. winning_combos ! k = combo
            \<and> set (combo_cells combo) \<subseteq> set (moves p)
            \<and> (\<forall>j < k. \<not> set (combo_cells (winning_combos ! j)) \<subseteq> set (moves p)))"
    unfolding satisfied_subset by blast
  finally show "check_winner p = Tuple True (Some combo) \<longleftrightarrow>
        (\<exists>k < length winning_combos. winning_combos ! k = combo
            \<and> set (combo_cells combo) \<subseteq> set (moves p)
            \<and> (\<forall>j < k. \<not> set (combo_cells (winning_combos ! j)) \<subseteq> set (moves p)))" .
next
  have "check_winner p = Bare False \<longleftrightarrow> find (satisfied p) winning_combos = None"
    by (simp add: check_winner_def check_combos_find split: option.splits)
  also have "\<dots> \<longleftrightarrow> (\<forall>c \<in> set winning_combos. \<not> satisfied p c)"
    by (auto simp: find_None_iff)
  finally show "check_winner p = Bare False \<longleftrightarrow>
        (\<forall>c \<in> set winning_combos. \<not> set (combo_cells c) \<subseteq> set (moves p))"
    unfolding satisfied_subset .
next
  show "check_winner p = Bare False \<or> (\<exists>c. check_winner p = Tuple True (Some c))"
    unfolding check_winner_def by (rule check_combos_shape)
qed

text \<open>
  The theorem at a player who holds the cells 1, 2, 3, 5, 9: the row (1,2,3) and the
  diagonal (1,5,9) are both complete, and the row, which comes first, is returned.
\<close>

theorem check_winner_first_match_witness:
  "check_winner \<lparr>name = str ''Alice'', marker = Marker_X, moves = [1, 2, 3, 5, 9], score = 0\<rparr>
     = Tuple True (Some (1, 2, 3))
   \<and> set (combo_cells (1, 5, 9)) \<subseteq> set [1, 2, 3, 5, 9 :: int]"
proof -
  let ?p = "\<lparr>name = str ''Alice'', marker = Marker_X, moves = [1, 2, 3, 5, 9], score = 0\<rparr>"
  have "\<exists>k < length winning_combos. winning_combos ! k = (1, 2, 3)
            \<and> set (combo_cells (1, 2, 3)) \<subseteq> set (moves ?p)
            \<and> (\<forall>j < k. \<not> set (combo_cells (winning_combos ! j)) \<subseteq> set (moves ?p))"
    by (rule exI [of _ 0]) (simp add: winning_combos_def)
  with check_winner_first_match [where p = ?p and combo = "(1, 2, 3)"]
  have "check_winner ?p = Tuple True (Some (1, 2, 3))" by blast
  then show ?thesis by simp
qed

text \<open>
  Claim C1 as the specification words it fails: for a player with no moves no
  combination is satisfied, and the result is the bare \<open>False\<close>, which is not the pair
  \<open>(False, None)\<close>. The difference shows in the caller's \<^verbatim>\<open>if winner:\<close>.
\<close>

theorem check_winner_no_pair_counterexample:
  "check_winner \<lparr>name = str ''Alice'', marker = Marker_X, moves = [], score = 0\<rparr> = Bare False
   \<and> check_winner \<lparr>name = str ''Alice'', marker = Marker_X, moves = [], score = 0\<rparr> \<noteq> Tuple False None
   \<and> truthy (Tuple False None) \<and> \<not> truthy (Bare False)"
  by (simp add: check_winner_def winning_combos_def satisfied_def)

subsection \<open>Properties of the store\<close>

lemma with_dbopen_result:
  "with_dbopen body db = (fst (body db), \<lparr>conn_view = snd (body db), conn_open = False\<rparr>, snd (body db))"
  by (simp add: with_dbopen_def dbopen_enter_def dbopen_exit_def sql_connect_def conn_commit_def
      conn_close_def Let_def split: prod.splits sum.splits)

text \<open>
  Claim C9. Whatever the block of a \<^verbatim>\<open>with dbopen(...)\<close> statement does, whether it
  ends normally or by an exception, the view it leaves is committed to the file and the
  connection is closed, and the caller receives the block's own result: \<^verbatim>\<open>__exit__\<close>
  returns a false value, so an exception is raised again. \<^verbatim>\<open>reset_data\<close> with an
  invalid argument is such an exception: the \<^verbatim>\<open>ValueError\<close> reaches the caller.
\<close>

theorem dbopen_commits_and_closes:
  "fst (with_dbopen body db) = fst (body db)
   \<and> snd (snd (with_dbopen body db)) = snd (body db)
   \<and> conn_view (fst (snd (with_dbopen body db))) = snd (body db)
   \<and> conn_open (fst (snd (with_dbopen body db))) = False
   \<and> fst (dbopen_exit conn db) = False
   \<and> reset_data (Some ''Scores'') db = (Inl ValueError, db)"
  by (simp add: with_dbopen_result reset_data_def reset_body_def dbopen_exit_def Let_def)

lemma add_score_body_result:
  "add_score_body nm t =
     (Inr (), t\<lparr>scores := (if nm \<in> set (map fst (scores t)) then map (bump nm) (scores t)
                             else scores t @ [(nm, 1)])\<rparr>)"
  by (simp add: add_score_body_def insert_score_def update_score_def)

lemma Player_add_score_result:
  "Player_add_score p db =
     (Inr (), p\<lparr>score := score p + 1\<rparr>,
      db\<lparr>scores := (if name p \<in> set (map fst (scores db)) then map (bump (name p)) (scores db)
                     else scores db @ [(name p, 1)])\<rparr>)"
  by (simp add: Player_add_score_def with_dbopen_result add_score_body_result Let_def)

lemma map_fst_bump: "fst \<circ> bump nm = fst"
  by (simp add: fun_eq_iff bump_def)

lemma map_of_bump:
  "map_of (map (bump nm) rows) = (\<lambda>x. if x = nm then map_option (\<lambda>c. c + 1) (map_of rows x) else map_of rows x)"
  by (induction rows) (auto simp: bump_def fun_eq_iff)

text \<open>
  Claim C4. \<^verbatim>\<open>Player.add_score\<close> adds one to the player's score and never raises. The
  names of the table \<^verbatim>\<open>scores\<close> being distinct (the unique key), they stay distinct;
  the count stored for the player's name becomes 1 when there was no row and one more
  than before when there was one, and no other row changes. When the insert raises
  \<^verbatim>\<open>IntegrityError\<close> the file is the one the update leaves, otherwise the one the
  insert leaves.
\<close>

theorem add_score_upserts:
  assumes "distinct (map fst (scores db))"
  shows "\<exists>db'. Player_add_score p db = (Inr (), p\<lparr>score := score p + 1\<rparr>, db')
     \<and> history db' = history db
     \<and> distinct (map fst (scores db'))
     \<and> map_of (scores db') =
         (map_of (scores db))(name p \<mapsto> (case map_of (scores db) (name p) of None \<Rightarrow> 1 | Some c \<Rightarrow> c + 1))
     \<and> (insert_score (name p) db = Inl IntegrityError \<longrightarrow> db' = update_score (name p) db)
     \<and> (insert_score (name p) db \<noteq> Inl IntegrityError \<longrightarrow> insert_score (name p) db = Inr db')
     \<and> length (scores db') = (if name p \<in> set (map fst (scores db)) then length (scores db) else length (scores db) + 1)"
proof (cases "name p \<in> set (map fst (scores db))")
  case True
  then obtain c where c: "map_of (scores db) (name p) = Some c"
    by (metis map_of_eq_None_iff not_Some_eq set_map)
  show ?thesis
    using True assms c
    by (auto simp: Player_add_score_result map_fst_bump map_of_bump insert_score_def update_score_def fun_eq_iff)
next
  case False
  then have "map_of (scores db) (name p) = None"
    by (simp add: map_of_eq_None_iff)
  then show ?thesis
    using False assms
    by (auto simp: Player_add_score_result insert_score_def fun_eq_iff map_add_def split: option.splits)
qed


text \<open>
  The theorem at a table that holds the player's name: the insert conflicts and the row
  of Alice goes from 2 to 3.
\<close>

theorem add_score_upserts_witness:
  "distinct (map fst [(str ''Alice'', 2 :: int), (str ''Bob'', 1)])
   \<and> Player_add_score \<lparr>name = str ''Alice'', marker = Marker_X, moves = [1, 2, 3], score = 2\<rparr>
         \<lparr>scores = [(str ''Alice'', 2), (str ''Bob'', 1)], history = []\<rparr>
       = (Inr (), \<lparr>name = str ''Alice'', marker = Marker_X, moves = [1, 2, 3], score = 3\<rparr>,
          \<lparr>scores = [(str ''Alice'', 3), (str ''Bob'', 1)], history = []\<rparr>)"
proof -
  let ?p = "\<lparr>name = str ''Alice'', marker = Marker_X, moves = [1, 2, 3], score = 2\<rparr>"
  let ?db = "\<lparr>scores = [(str ''Alice'', 2), (str ''Bob'', 1)], history = []\<rparr>"
  have h: "distinct (map fst (scores ?db))" by simp
  from add_score_upserts [OF h, of ?p] obtain db'
    where r: "Player_add_score ?p ?db = (Inr (), ?p\<lparr>score := score ?p + 1\<rparr>, db')"
      and u: "insert_score (name ?p) ?db = Inl IntegrityError \<longrightarrow> db' = update_score (name ?p) ?db"
    by blast
  have "insert_score (name ?p) ?db = Inl IntegrityError"
    by (simp add: insert_score_def)
  with u have "db' = update_score (name ?p) ?db" by simp
  then have "db' = \<lparr>scores = [(str ''Alice'', 3), (str ''Bob'', 1)], history = []\<rparr>"
    by (simp add: update_score_def bump_def)
  with r h show ?thesis by simp
qed

subsection \<open>Properties of the round\<close>

text \<open>The typed lines of the examples, read by the prompt.\<close>

lemma evals:
  "lower ''1'' \<noteq> ''?stop''" "lower ''2'' \<noteq> ''?stop''" "lower ''3'' \<noteq> ''?stop''"
  "lower ''4'' \<noteq> ''?stop''" "lower ''5'' \<noteq> ''?stop''"
  "isdigit ''1''" "isdigit ''2''" "isdigit ''3''" "isdigit ''4''" "isdigit ''5''"
  "py_int ''1'' = Inr 1" "py_int ''2'' = Inr 2" "py_int ''3'' = Inr 3" "py_int ''4'' = Inr 4"
  "py_int ''5'' = Inr 5"
  by (simp_all add: lower_def isdigit_def is_digit_def is_decimal_def in_range_def py_int_def digit_val_def)

lemma add_score_all_result:
  "\<exists>db'. add_score_all ps db = (Inr (), map (\<lambda>p. p\<lparr>score := score p + 1\<rparr>) ps, db')
         \<and> history db' = history db"
proof (induction ps arbitrary: db)
  case Nil
  show ?case by simp
next
  case (Cons p ps)
  let ?db1 = "snd (snd (Player_add_score p db))"
  from Cons.IH [of ?db1] obtain db2
    where "add_score_all ps ?db1 = (Inr (), map (\<lambda>p. p\<lparr>score := score p + 1\<rparr>) ps, db2)"
      and "history db2 = history ?db1" by blast
  then show ?case
    by (simp add: Player_add_score_result)
qed

lemma Game_save_result:
  "2 \<le> length (players g) \<Longrightarrow>
   Game_save sh g db =
     (Inr (), g\<lparr>round_num := round_num g + 1\<rparr>,
      insert_history (name (players g ! 0), name (players g ! 1),
         (case winner g of Some k \<Rightarrow> Some (name (players g ! k)) | None \<Rightarrow> None),
         now sh (round_num g + 1)) db)"
  by (simp add: Game_save_def with_dbopen_result Let_def split: option.splits)

lemma save_and_wait_result:
  "2 \<le> length (players g) \<Longrightarrow>
   save_and_wait sh rest g db =
     (if rest = [] then Raised EOFError else Completed, tl rest,
      g\<lparr>round_num := round_num g + 1\<rparr>,
      insert_history (name (players g ! 0), name (players g ! 1),
         (case winner g of Some k \<Rightarrow> Some (name (players g ! k)) | None \<Rightarrow> None),
         now sh (round_num g + 1)) db)"
  by (simp add: save_and_wait_def Game_save_result split: list.splits)

lemma map_update_same: "(map f xs)[k := f (xs ! k)] = map f xs"
  by (cases "k < length xs") (simp_all add: list_eq_iff_nth_eq nth_list_update)

lemma place_frame:
  "place n k g = (ok, g1) \<Longrightarrow>
     length (players g1) = length (players g) \<and> round_num g1 = round_num g \<and> winner g1 = winner g
     \<and> map score (players g1) = map score (players g) \<and> map name (players g1) = map name (players g)
     \<and> map marker (players g1) = map marker (players g)"
  by (auto simp: place_def Board_add_move_def Player_add_move_def Let_def map_update
      map_update_same split: if_splits)

lemma add_score_all_fst:
  "fst (add_score_all ps db) = Inr ()"
  "fst (snd (add_score_all ps db)) = map (\<lambda>p. p\<lparr>score := score p + 1\<rparr>) ps"
  "history (snd (snd (add_score_all ps db))) = history db"
  using add_score_all_result [of ps db] by auto

lemma conclude_draw:
  "\<not> truthy (check_winner (players g ! k)) \<Longrightarrow> Board_is_full (board g) \<Longrightarrow>
   conclude sh rest k g db =
     Some (save_and_wait sh rest
        (g\<lparr>players := map (\<lambda>p. p\<lparr>score := score p + 1\<rparr>) (players g)\<rparr>)
        (snd (snd (add_score_all (players g) db))))"
proof -
  obtain db' where "add_score_all (players g) db
      = (Inr (), map (\<lambda>p. p\<lparr>score := score p + 1\<rparr>) (players g), db')"
    using add_score_all_result [of "players g" db] by blast
  then show "\<not> truthy (check_winner (players g ! k)) \<Longrightarrow> Board_is_full (board g) \<Longrightarrow> ?thesis"
    by (simp add: conclude_def)
qed

lemma save_and_wait_frame:
  "save_and_wait sh rest g db = (out, rest', g', db') \<Longrightarrow>
     out \<noteq> Aborted \<and> players g' = players g \<and> board g' = board g \<and> winner g' = winner g
     \<and> round_num g' = round_num g + 1"
  by (auto simp: save_and_wait_def Game_save_def Let_def split: prod.splits sum.splits list.splits if_splits)

lemma conclude_frame:
  assumes "conclude sh rest k g db = Some (out, rest', g', db')"
  shows "out \<noteq> Aborted \<and> length (players g') = length (players g) \<and> board g' = board g
     \<and> map name (players g') = map name (players g)
     \<and> map moves (players g') = map moves (players g)
     \<and> map marker (players g') = map marker (players g)
     \<and> (out = Completed \<longrightarrow> round_num g' = round_num g + 1)"
proof -
  obtain db1 where "add_score_all (players g) db
      = (Inr (), map (\<lambda>p. p\<lparr>score := score p + 1\<rparr>) (players g), db1)"
    using add_score_all_result [of "players g" db] by blast
  with assms show ?thesis
    by (auto simp: conclude_def Player_add_score_result Let_def map_update map_update_same comp_def
      split: if_splits sum.splits dest!: save_and_wait_frame)
qed


lemma place_occupied: "n \<in> dom (board g) \<Longrightarrow> place n k g = (False, g)"
  by (simp add: place_def Board_add_move_def)

lemma place_free:
  "n \<notin> dom (board g) \<Longrightarrow>
   place n k g = (True, g\<lparr>board := (board g)(n \<mapsto> marker (players g ! k)),
                          players := (players g)[k := Player_add_move n (players g ! k)]\<rparr>)"
  by (simp add: place_def Board_add_move_def)

lemma round_loop_reject:
  "lower move \<noteq> ''?stop'' \<Longrightarrow>
   \<not> isdigit move \<or> (\<exists>n. py_int move = Inr n \<and> (n < 1 \<or> 9 < n \<or> n \<in> dom (board g))) \<Longrightarrow>
   round_loop sh (move # rest) k g db = round_loop sh rest k g db"
  by (auto simp: place_occupied domI)

lemma round_loop_step:
  obtains
    (stop) "lower move = ''?stop''" "round_loop sh (move # rest) k g db = (Aborted, rest, g, db)"
  | (again) "lower move \<noteq> ''?stop''"
      "round_loop sh (move # rest) k g db = round_loop sh rest k g db"
  | (raised) e where "lower move \<noteq> ''?stop''" "isdigit move" "py_int move = Inl e"
      "round_loop sh (move # rest) k g db = (Raised e, rest, g, db)"
  | (placed) n g1 where "lower move \<noteq> ''?stop''" "1 \<le> n" "n \<le> 9" "place n k g = (True, g1)"
      "conclude sh rest k g1 db = None"
      "round_loop sh (move # rest) k g db = round_loop sh rest (next_player k g1) g1 db"
  | (ended) n g1 r where "lower move \<noteq> ''?stop''" "1 \<le> n" "n \<le> 9" "place n k g = (True, g1)"
      "conclude sh rest k g1 db = Some r"
      "round_loop sh (move # rest) k g db = r"
proof (cases "lower move = ''?stop''")
  case True
  then show ?thesis using stop by simp
next
  case nostop: False
  show ?thesis
  proof (cases "isdigit move")
    case False
    with nostop show ?thesis using again by simp
  next
    case digits: True
    show ?thesis
    proof (cases "py_int move")
      case (Inl e)
      with nostop digits show ?thesis using raised by simp
    next
      case (Inr n)
      show ?thesis
      proof (cases "1 \<le> n \<and> n \<le> 9")
        case False
        then have "round_loop sh (move # rest) k g db = round_loop sh rest k g db"
          using nostop digits Inr by auto
        with nostop show ?thesis using again by simp
      next
        case inrange: True
        obtain ok g1 where pl: "place n k g = (ok, g1)" by (cases "place n k g")
        show ?thesis
        proof (cases ok)
          case False
          with nostop digits Inr inrange pl show ?thesis using again by simp
        next
          case True
          show ?thesis
          proof (cases "conclude sh rest k g1 db")
            case None
            with nostop digits Inr inrange pl True show ?thesis using placed [of n g1] by simp
          next
            case (Some r)
            with nostop digits Inr inrange pl True show ?thesis using ended [of n g1 r] by simp
          qed
        qed
      qed
    qed
  qed
qed

lemma round_loop_Aborted:
  "round_loop sh lines k g db = (Aborted, rest', g', db') \<Longrightarrow>
     db' = db \<and> round_num g' = round_num g \<and> winner g' = winner g
     \<and> map score (players g') = map score (players g)
     \<and> (\<exists>pre stop. lines = pre @ stop # rest' \<and> lower stop = ''?stop'')"
proof (induction lines arbitrary: k g)
  case Nil
  then show ?case by simp
next
  case (Cons move rest)
  have app: "\<exists>pre stop. move # rest = pre @ stop # rest' \<and> lower stop = ''?stop''"
    if "\<exists>pre stop. rest = pre @ stop # rest' \<and> lower stop = ''?stop''"
  proof -
    from that obtain pre stop where "rest = pre @ stop # rest'" "lower stop = ''?stop''" by blast
    then have "move # rest = (move # pre) @ stop # rest' \<and> lower stop = ''?stop''" by simp
    then show ?thesis by blast
  qed
  show ?case
  proof (cases rule: round_loop_step [of move sh rest k g db])
    case stop
    with Cons.prems have "rest' = rest" "g' = g" "db' = db" by simp_all
    with stop show ?thesis by (metis append_Nil)
  next
    case again
    with Cons.prems Cons.IH [of k g] app show ?thesis by simp
  next
    case (raised e)
    with Cons.prems show ?thesis by simp
  next
    case (placed n g1)
    with Cons.prems Cons.IH [of "next_player k g1" g1] app place_frame [of n k g True g1]
    show ?thesis by simp
  next
    case (ended n g1 r)
    with Cons.prems conclude_frame [of sh rest k g1 db Aborted rest' g' db']
    show ?thesis by simp
  qed
qed

lemma Game_start_stop:
  "lower move = ''?stop'' \<Longrightarrow> 2 \<le> length (players g) \<Longrightarrow>
   Game_start sh (move # rest) g db = (Aborted, rest, g, db)"
  by (simp add: Game_start.simps)

text \<open>
  Claim C3. A typed line whose lower-case form is \<^verbatim>\<open>?stop\<close> ends the round at that
  prompt: the game, the store and the lines not yet read are returned as they are, and
  \<^verbatim>\<open>Game.start\<close> returns without a rematch menu. Whenever a round ends aborted, at
  whatever prompt, the store is the one the round began with (no score row, no history
  row), the round number, the winner and the players' scores are unchanged, and the
  lines left are exactly those after the stop line.
\<close>

theorem stop_sentinel_aborts:
  "(lower move = ''?stop'' \<longrightarrow> round_loop sh (move # rest) k g db = (Aborted, rest, g, db))
   \<and> (lower move = ''?stop'' \<and> 2 \<le> length (players g) \<longrightarrow>
        Game_start sh (move # rest) g db = (Aborted, rest, g, db))
   \<and> (round_loop sh lines k g db = (Aborted, rest', g', db') \<longrightarrow>
        db' = db \<and> round_num g' = round_num g \<and> winner g' = winner g
        \<and> map score (players g') = map score (players g)
        \<and> (\<exists>pre stop. lines = pre @ stop # rest' \<and> lower stop = ''?stop''))"
  using round_loop_Aborted [of sh lines k g db rest' g' db']
  by (simp add: Game_start_stop)

text \<open>The theorem at the line \<^verbatim>\<open>?STOP\<close>, typed at the first prompt of a first round.\<close>

theorem stop_sentinel_aborts_witness:
  "lower ''?STOP'' = ''?stop''
   \<and> round_loop quiet_shell [''?STOP'', ''5''] 0 new_match empty_db
       = (Aborted, [''5''], new_match, empty_db)
   \<and> Game_start quiet_shell [''?STOP'', ''5''] new_match empty_db
       = (Aborted, [''5''], new_match, empty_db)
   \<and> round_loop quiet_shell [''5'', ''?Stop'', ''1''] 0 new_match empty_db
       = (Aborted, [''1''],
          new_match\<lparr>board := [5 \<mapsto> Marker_X], players := [alice\<lparr>moves := [5]\<rparr>, bob]\<rparr>,
          empty_db)
   \<and> (\<exists>pre stop. [''5'', ''?Stop'', ''1''] = pre @ stop # [''1''] \<and> lower stop = ''?stop'')"
proof -
  let ?g5 = "new_match\<lparr>board := [5 \<mapsto> Marker_X], players := [alice\<lparr>moves := [5]\<rparr>, bob]\<rparr>"
  have h: "lower ''?STOP'' = ''?stop''" and h': "lower ''?Stop'' = ''?stop''" by code_simp+
  have n: "2 \<le> length (players new_match)" by (simp add: new_match_def)
  have r: "round_loop quiet_shell [''5'', ''?Stop'', ''1''] 0 new_match empty_db
       = (Aborted, [''1''], ?g5, empty_db)"
    by (simp add: evals h' place_def Board_add_move_def Player_add_move_def conclude_def
        check_winner_def winning_combos_def satisfied_def Board_is_full_def next_player_def
        new_match_def Game_init_def Board_init_def alice_def bob_def)
  note first = stop_sentinel_aborts [of "''?STOP''" quiet_shell "[''5'']" 0 new_match empty_db]
  note later = stop_sentinel_aborts [of _ quiet_shell _ 0 new_match empty_db
      "[''5'', ''?Stop'', ''1'']" "[''1'']" ?g5 empty_db]
  from first h n have "round_loop quiet_shell [''?STOP'', ''5''] 0 new_match empty_db
       = (Aborted, [''5''], new_match, empty_db)"
    and "Game_start quiet_shell [''?STOP'', ''5''] new_match empty_db
       = (Aborted, [''5''], new_match, empty_db)"
    by blast+
  moreover from later r
  have "\<exists>pre stop. [''5'', ''?Stop'', ''1''] = pre @ stop # [''1''] \<and> lower stop = ''?stop''"
    by blast
  ultimately show ?thesis using h r by simp
qed

text \<open>
  Claim C5 fails at the line that holds the superscript digit two (code point 178):
  \<^verbatim>\<open>isdigit\<close> accepts it, \<^verbatim>\<open>int\<close> raises \<^verbatim>\<open>ValueError\<close>, and the round ends by
  that exception at the prompt instead of asking the same player again. (For a line that
  is not a digit string, for a decimal number outside 1-9 and for an occupied cell the
  same player is asked again with the game unchanged: \<open>round_loop_reject\<close>.)
\<close>

theorem superscript_digit_raises:
  "isdigit [CHR 0xB2] \<and> lower [CHR 0xB2] \<noteq> ''?stop''
   \<and> round_loop sh ([CHR 0xB2] # rest) k g db = (Raised ValueError, rest, g, db)"
  by (simp add: isdigit_def is_digit_def is_decimal_def in_range_def py_int_def lower_def)

text \<open>
  Claim C2. When an accepted move fills the board and does not complete a line of the
  player who moved, \<^verbatim>\<open>add_score\<close> runs for every player of the game, none raises, every
  score grows by one, the round number grows by one and the row (first name, second
  name, \<open>None\<close>, time) is appended to the history. The round is then complete once the
  line for \<^verbatim>\<open>Press Enter key to continue...\<close> is read; at the end of the input that
  \<^verbatim>\<open>input\<close> raises \<^verbatim>\<open>EOFError\<close> with the draw already recorded.
\<close>

theorem full_board_is_draw:
  assumes "k < length (players g)" and "2 \<le> length (players g)" and "winner g = None"
    and "lower move \<noteq> ''?stop''" and "isdigit move" and "py_int move = Inr n"
    and "1 \<le> n" and "n \<le> 9" and "place n k g = (True, g1)"
    and "\<not> truthy (check_winner (players g1 ! k))" and "Board_is_full (board g1)"
  shows "round_loop sh (move # rest) k g db =
           (if rest = [] then Raised EOFError else Completed, tl rest,
            g1\<lparr>players := map (\<lambda>p. p\<lparr>score := score p + 1\<rparr>) (players g1),
               round_num := round_num g + 1\<rparr>,
            insert_history (name (players g ! 0), name (players g ! 1), None, now sh (round_num g + 1))
              (snd (snd (add_score_all (players g1) db))))
       \<and> add_score_all (players g1) db =
           (Inr (), map (\<lambda>p. p\<lparr>score := score p + 1\<rparr>) (players g1),
            snd (snd (add_score_all (players g1) db)))
       \<and> (\<forall>i < length (players g).
             score (map (\<lambda>p. p\<lparr>score := score p + 1\<rparr>) (players g1) ! i) = score (players g ! i) + 1)
       \<and> history (insert_history (name (players g ! 0), name (players g ! 1), None, now sh (round_num g + 1))
              (snd (snd (add_score_all (players g1) db))))
           = history db @ [(name (players g ! 0), name (players g ! 1), None, now sh (round_num g + 1))]"
proof -
  note fr = place_frame [OF assms(9)]
  have len: "2 \<le> length (players g1)" using fr assms(2) by simp
  have nm: "name (players g1 ! 0) = name (players g ! 0)" "name (players g1 ! 1) = name (players g ! 1)"
    using fr assms(2) by (metis One_nat_def Suc_1 Suc_le_lessD less_Suc_eq nth_map zero_less_Suc
        le_eq_less_or_eq less_le_trans)+
  have sc: "\<forall>i < length (players g). score (players g1 ! i) = score (players g ! i)"
    using fr by (metis length_map nth_map)
  have pos: "0 < length (players g1)" "1 < length (players g1)" using len by auto
  have rl: "round_loop sh (move # rest) k g db =
      save_and_wait sh rest (g1\<lparr>players := map (\<lambda>p. p\<lparr>score := score p + 1\<rparr>) (players g1)\<rparr>)
        (snd (snd (add_score_all (players g1) db)))"
    using assms by (simp add: conclude_draw)
  have sw: "save_and_wait sh rest (g1\<lparr>players := map (\<lambda>p. p\<lparr>score := score p + 1\<rparr>) (players g1)\<rparr>)
        (snd (snd (add_score_all (players g1) db))) =
           (if rest = [] then Raised EOFError else Completed, tl rest,
            g1\<lparr>players := map (\<lambda>p. p\<lparr>score := score p + 1\<rparr>) (players g1),
               round_num := round_num g + 1\<rparr>,
            insert_history (name (players g ! 0), name (players g ! 1), None, now sh (round_num g + 1))
              (snd (snd (add_score_all (players g1) db))))"
    using len pos nm fr assms(3) by (simp add: save_and_wait_result)
  have "round_loop sh (move # rest) k g db =
           (if rest = [] then Raised EOFError else Completed, tl rest,
            g1\<lparr>players := map (\<lambda>p. p\<lparr>score := score p + 1\<rparr>) (players g1),
               round_num := round_num g + 1\<rparr>,
            insert_history (name (players g ! 0), name (players g ! 1), None, now sh (round_num g + 1))
              (snd (snd (add_score_all (players g1) db))))"
    by (rule trans [OF rl sw])
  moreover have "add_score_all (players g1) db =
           (Inr (), map (\<lambda>p. p\<lparr>score := score p + 1\<rparr>) (players g1),
            snd (snd (add_score_all (players g1) db)))"
    using add_score_all_result [of "players g1" db] by auto
  moreover have "\<forall>i < length (players g).
             score (map (\<lambda>p. p\<lparr>score := score p + 1\<rparr>) (players g1) ! i) = score (players g ! i) + 1"
    using sc fr by simp
  moreover have "history (insert_history (name (players g ! 0), name (players g ! 1), None, now sh (round_num g + 1))
              (snd (snd (add_score_all (players g1) db))))
           = history db @ [(name (players g ! 0), name (players g ! 1), None, now sh (round_num g + 1))]"
    by (simp add: insert_history_def add_score_all_fst)
  ultimately show ?thesis by blast
qed

text \<open>The theorem at the last move of the drawn round 1, 2, 3, 5, 4, 6, 8, 7, 9.\<close>

theorem full_board_is_draw_witness:
  "round_loop quiet_shell [''9'', ''''] 0 draw_position empty_db =
     (Completed, [],
      \<lparr>board = (board draw_position)(9 \<mapsto> Marker_X),
       players = [\<lparr>name = str ''Alice'', marker = Marker_X, moves = [1, 3, 4, 8, 9], score = 1\<rparr>,
                  \<lparr>name = str ''Bob'', marker = Marker_O, moves = [2, 5, 6, 7], score = 1\<rparr>],
       winner = None, round_num = 2\<rparr>,
      \<lparr>scores = [(str ''Alice'', 1), (str ''Bob'', 1)],
       history = [(str ''Alice'', str ''Bob'', None, 1700000000)]\<rparr>)"
proof -
  let ?g1 = "\<lparr>board = (board draw_position)(9 \<mapsto> Marker_X),
       players = [\<lparr>name = str ''Alice'', marker = Marker_X, moves = [1, 3, 4, 8, 9], score = 0\<rparr>,
                  \<lparr>name = str ''Bob'', marker = Marker_O, moves = [2, 5, 6, 7], score = 0\<rparr>],
       winner = None, round_num = 1\<rparr>"
  have h1: "0 < length (players draw_position)" and h2: "2 \<le> length (players draw_position)"
    and h3: "winner draw_position = None"
    by (simp_all add: draw_position_def)
  have h4: "lower ''9'' \<noteq> ''?stop''" by (simp add: lower_def)
  have h5: "isdigit ''9''" and h6: "py_int ''9'' = Inr 9"
    by (simp_all add: isdigit_def is_digit_def is_decimal_def in_range_def py_int_def digit_val_def)
  have h7: "(1::int) \<le> 9" and h8: "(9::int) \<le> 9" by simp_all
  have h9: "place 9 0 draw_position = (True, ?g1)"
    by (simp add: place_def Board_add_move_def Player_add_move_def draw_position_def alice_def bob_def)
  have h10: "\<not> truthy (check_winner (players ?g1 ! 0))"
    by (simp add: check_winner_def winning_combos_def satisfied_def)
  have h11: "Board_is_full (board ?g1)"
    by (simp add: Board_is_full_def draw_position_def)
  have a: "add_score_all (players ?g1) empty_db =
      (Inr (), [\<lparr>name = str ''Alice'', marker = Marker_X, moves = [1, 3, 4, 8, 9], score = 1\<rparr>,
                \<lparr>name = str ''Bob'', marker = Marker_O, moves = [2, 5, 6, 7], score = 1\<rparr>],
       \<lparr>scores = [(str ''Alice'', 1), (str ''Bob'', 1)], history = []\<rparr>)"
    by (simp add: Player_add_score_result empty_db_def)
  note t = full_board_is_draw [OF h1 h2 h3 h4 h5 h6 h7 h8 h9 h10 h11, of quiet_shell "['''']" empty_db]
  from conjunct1 [OF t] show ?thesis
    unfolding a by (simp add: insert_history_def draw_position_def alice_def bob_def quiet_shell_def)
qed

subsection \<open>Properties of the board\<close>

lemma place_consistent:
  assumes "consistent g" and "k < length (players g)"
  shows "consistent (snd (place n k g))"
proof (cases "n \<in> dom (board g)")
  case True
  then show ?thesis using assms by (simp add: place_occupied)
next
  case False
  from assms(1) have dom: "\<And>c. c \<in> dom (board g) \<longleftrightarrow> (\<exists>i < length (players g). c \<in> set (moves (players g ! i)))"
    by (simp add: consistent_def)
  from False dom have fresh: "\<And>i. i < length (players g) \<Longrightarrow> n \<notin> set (moves (players g ! i))"
    by blast
  show ?thesis
    using assms fresh False
    unfolding place_free [OF False] consistent_def
    apply (simp add: Player_add_move_def nth_list_update)
    apply (intro conjI allI impI)
    apply auto
    done
qed

lemma place_length: "length (players (snd (place n k g))) = length (players g)"
  by (cases "n \<in> dom (board g)") (simp_all add: place_occupied place_free)

lemma place_board:
  "board (snd (place n k g)) = (if n \<in> dom (board g) then board g else (board g)(n \<mapsto> marker (players g ! k)))"
  by (cases "n \<in> dom (board g)") (simp_all add: place_occupied place_free)

lemma place_keeps: "board g c = Some mk \<Longrightarrow> board (snd (place n k g)) c = Some mk"
  by (auto simp: place_board)

lemma place_markers: "map marker (players (snd (place n k g))) = map marker (players g)"
  using place_frame [of n k g "fst (place n k g)" "snd (place n k g)"] by simp

lemma add_moves_length: "length (players (add_moves calls g)) = length (players g)"
  by (induction calls g rule: add_moves.induct) (simp_all add: place_length)

lemma add_moves_markers: "map marker (players (add_moves calls g)) = map marker (players g)"
  by (induction calls g rule: add_moves.induct) (simp_all add: place_markers)

lemma add_moves_append: "add_moves (calls @ later) g = add_moves later (add_moves calls g)"
  by (induction calls g rule: add_moves.induct) simp_all

lemma add_moves_keeps: "board g c = Some mk \<Longrightarrow> board (add_moves calls g) c = Some mk"
  by (induction calls g rule: add_moves.induct) (simp_all add: place_keeps)

lemma add_moves_consistent:
  "consistent g \<Longrightarrow> \<forall>(k, m) \<in> set calls. k < length (players g) \<Longrightarrow> consistent (add_moves calls g)"
  by (induction calls g rule: add_moves.induct) (simp_all add: place_consistent place_length)

lemma add_moves_range:
  "dom (board g) \<subseteq> {1..9} \<Longrightarrow> \<forall>(k, m) \<in> set calls. 1 \<le> m \<and> m \<le> 9 \<Longrightarrow>
   dom (board (add_moves calls g)) \<subseteq> {1..9}"
proof (induction calls g rule: add_moves.induct)
  case (1 g)
  then show ?case by simp
next
  case (2 k move calls g)
  from "2.prems" have "dom (board (snd (place move k g))) \<subseteq> {1..9}"
    by (auto simp: place_board split: if_splits)
  with 2 show ?case by simp
qed

lemma fresh_consistent:
  "board g = Map.empty \<Longrightarrow> \<forall>p \<in> set (players g). moves p = [] \<Longrightarrow> consistent g"
  by (simp add: consistent_def)

lemma full_iff_all_cells:
  assumes "dom b \<subseteq> {1..9}"
  shows "Board_is_full b \<longleftrightarrow> dom b = {1..9}"
proof
  assume "Board_is_full b"
  then have "card (dom b) = card {1..9::int}" by (simp add: Board_is_full_def)
  with assms show "dom b = {1..9}" by (simp add: card_subset_eq)
next
  assume "dom b = {1..9}"
  then show "Board_is_full b" by (simp add: Board_is_full_def)
qed

lemma round_loop_reaches:
  assumes "k < length (players g)" and "round_loop sh lines k g db = (out, rest, g', db')"
  shows "\<exists>calls. (\<forall>(j, m) \<in> set calls. j < length (players g) \<and> 1 \<le> m \<and> m \<le> 9)
           \<and> board g' = board (add_moves calls g)
           \<and> map moves (players g') = map moves (players (add_moves calls g))"
  using assms
proof (induction lines arbitrary: k g)
  case Nil
  then have "g' = g" by simp
  then have "(\<forall>(j, m) \<in> set []. j < length (players g) \<and> 1 \<le> m \<and> m \<le> 9)
           \<and> board g' = board (add_moves [] g)
           \<and> map moves (players g') = map moves (players (add_moves [] g))" by simp
  then show ?case by blast
next
  case (Cons move lines)
  have none: "\<exists>calls. (\<forall>(j, m) \<in> set calls. j < length (players g) \<and> 1 \<le> m \<and> m \<le> 9)
           \<and> board g' = board (add_moves calls g)
           \<and> map moves (players g') = map moves (players (add_moves calls g))" if "g' = g"
  proof -
    from that have "(\<forall>(j, m) \<in> set []. j < length (players g) \<and> 1 \<le> m \<and> m \<le> 9)
           \<and> board g' = board (add_moves [] g)
           \<and> map moves (players g') = map moves (players (add_moves [] g))" by simp
    then show ?thesis by blast
  qed
  show ?case
  proof (cases rule: round_loop_step [of move sh lines k g db])
    case stop
    with Cons.prems none show ?thesis by simp
  next
    case again
    with Cons.prems Cons.IH [of k g] show ?thesis by simp
  next
    case (raised e)
    with Cons.prems none show ?thesis by simp
  next
    case (placed n g1)
    have g1: "g1 = snd (place n k g)" using placed by simp
    have len: "length (players g1) = length (players g)" by (simp add: g1 place_length)
    have "next_player k g1 < length (players g1)"
      using Cons.prems(1) len by (auto simp: next_player_def intro: mod_less_divisor)
    with Cons.IH [of "next_player k g1" g1] Cons.prems placed
    obtain calls where c: "\<forall>(j, m) \<in> set calls. j < length (players g1) \<and> 1 \<le> m \<and> m \<le> 9"
        "board g' = board (add_moves calls g1)"
        "map moves (players g') = map moves (players (add_moves calls g1))"
      by auto
    have step: "add_moves ((k, n) # calls) g = add_moves calls g1"
      using placed(4) by simp
    have "\<forall>(j, m) \<in> set ((k, n) # calls). j < length (players g) \<and> 1 \<le> m \<and> m \<le> 9"
      using c(1) len Cons.prems(1) placed(2,3) by simp
    with c(2,3) step
    have "(\<forall>(j, m) \<in> set ((k, n) # calls). j < length (players g) \<and> 1 \<le> m \<and> m \<le> 9)
           \<and> board g' = board (add_moves ((k, n) # calls) g)
           \<and> map moves (players g') = map moves (players (add_moves ((k, n) # calls) g))"
      by simp
    then show ?thesis by blast
  next
    case (ended n g1 r)
    have g1: "g1 = snd (place n k g)" using ended by simp
    from ended Cons.prems have "conclude sh lines k g1 db = Some (out, rest, g', db')" by simp
    from conclude_frame [OF this]
    have "board g' = board g1" "map moves (players g') = map moves (players g1)" by simp_all
    moreover have "add_moves [(k, n)] g = g1" using ended(4) by simp
    moreover have "\<forall>(j, m) \<in> set [(k, n)]. j < length (players g) \<and> 1 \<le> m \<and> m \<le> 9"
      using Cons.prems(1) ended(2,3) by simp
    ultimately have "(\<forall>(j, m) \<in> set [(k, n)]. j < length (players g) \<and> 1 \<le> m \<and> m \<le> 9)
           \<and> board g' = board (add_moves [(k, n)] g)
           \<and> map moves (players g') = map moves (players (add_moves [(k, n)] g))"
      by simp
    then show ?thesis by blast
  qed
qed

lemma consistent_lists:
  "consistent g \<Longrightarrow> \<forall>ms \<in> set (map moves (players g)). sorted ms \<and> distinct ms"
  by (auto simp: consistent_def in_set_conv_nth)

text \<open>
  Claim C7. The states of a round are those reached from an empty board and empty move
  lists by \<^verbatim>\<open>Board.add_move\<close> calls with cells 1 to 9, the cells the prompt lets
  through. In every such state the board has at most 9 entries; an occupied cell keeps
  its marker through all later calls; \<^verbatim>\<open>is_full\<close> holds iff 9 cells are occupied, which
  is iff the cells 1 to 9 all are; and every player's list is sorted and free of
  duplicates. The last part states the same for the game that \<open>round_loop\<close> returns
  from any typed lines, whatever way the round ends.
\<close>

theorem board_invariants:
  assumes "board g0 = Map.empty" and "\<forall>p \<in> set (players g0). moves p = []"
    and "\<forall>(k, m) \<in> set (calls @ later). k < length (players g0) \<and> 1 \<le> m \<and> m \<le> 9"
  shows "card (dom (board (add_moves calls g0))) \<le> 9
     \<and> (\<forall>c mk. board (add_moves calls g0) c = Some mk \<longrightarrow>
            board (add_moves (calls @ later) g0) c = Some mk)
     \<and> (Board_is_full (board (add_moves calls g0)) \<longleftrightarrow> card (dom (board (add_moves calls g0))) = 9)
     \<and> (Board_is_full (board (add_moves calls g0)) \<longleftrightarrow> dom (board (add_moves calls g0)) = {1..9})
     \<and> (\<forall>p \<in> set (players (add_moves calls g0)). sorted (moves p) \<and> distinct (moves p))
     \<and> (\<forall>sh lines k db out rest g' db'.
           k < length (players g0) \<and> round_loop sh lines k g0 db = (out, rest, g', db') \<longrightarrow>
             card (dom (board g')) \<le> 9
             \<and> (Board_is_full (board g') \<longleftrightarrow> dom (board g') = {1..9})
             \<and> (\<forall>p \<in> set (players g'). sorted (moves p) \<and> distinct (moves p)))"
proof -
  have c0: "consistent g0" using assms(1,2) by (rule fresh_consistent)
  have r0: "dom (board g0) \<subseteq> {1..9}" using assms(1) by simp
  have inv: "card (dom (board (add_moves cs g0))) \<le> 9
      \<and> (Board_is_full (board (add_moves cs g0)) \<longleftrightarrow> dom (board (add_moves cs g0)) = {1..9})
      \<and> (\<forall>ms \<in> set (map moves (players (add_moves cs g0))). sorted ms \<and> distinct ms)"
    if v: "\<forall>(k, m) \<in> set cs. k < length (players g0) \<and> 1 \<le> m \<and> m \<le> 9" for cs
  proof -
    from v have v1: "\<forall>(k, m) \<in> set cs. k < length (players g0)"
      and v2: "\<forall>(k, m) \<in> set cs. 1 \<le> m \<and> m \<le> 9" by auto
    have sub: "dom (board (add_moves cs g0)) \<subseteq> {1..9}"
      using r0 v2 by (rule add_moves_range)
    have "card (dom (board (add_moves cs g0))) \<le> card {1..9::int}"
      using sub by (intro card_mono) simp_all
    then have "card (dom (board (add_moves cs g0))) \<le> 9" by simp
    moreover have "consistent (add_moves cs g0)"
      using c0 v1 by (rule add_moves_consistent)
    ultimately show ?thesis
      using full_iff_all_cells [OF sub] consistent_lists by blast
  qed
  from assms(3) have vc: "\<forall>(k, m) \<in> set calls. k < length (players g0) \<and> 1 \<le> m \<and> m \<le> 9"
    by auto
  have engine: "card (dom (board g')) \<le> 9
             \<and> (Board_is_full (board g') \<longleftrightarrow> dom (board g') = {1..9})
             \<and> (\<forall>p \<in> set (players g'). sorted (moves p) \<and> distinct (moves p))"
    if "k < length (players g0)" "round_loop sh lines k g0 db = (out, rest, g', db')"
    for sh lines k db out rest g' db'
  proof -
    from round_loop_reaches [OF that] obtain cs
      where cs: "\<forall>(j, m) \<in> set cs. j < length (players g0) \<and> 1 \<le> m \<and> m \<le> 9"
        and b: "board g' = board (add_moves cs g0)"
        and m: "map moves (players g') = map moves (players (add_moves cs g0))"
      by blast
    from inv [OF cs] b m
    have "card (dom (board g')) \<le> 9" "Board_is_full (board g') \<longleftrightarrow> dom (board g') = {1..9}"
      "\<forall>ms \<in> set (map moves (players g')). sorted ms \<and> distinct ms"
      by simp_all
    then show ?thesis by simp
  qed
  have "\<forall>p \<in> set (players (add_moves calls g0)). sorted (moves p) \<and> distinct (moves p)"
    using inv [OF vc] by simp
  moreover have "\<forall>c mk. board (add_moves calls g0) c = Some mk \<longrightarrow>
            board (add_moves (calls @ later) g0) c = Some mk"
    by (simp add: add_moves_append add_moves_keeps)
  moreover have "Board_is_full (board (add_moves calls g0)) \<longleftrightarrow> card (dom (board (add_moves calls g0))) = 9"
    by (simp add: Board_is_full_def)
  ultimately show ?thesis
    using inv [OF vc] engine by blast
qed

text \<open>
  The theorem at the calls 5 by Alice, 5 by Bob (refused), 1 by Alice, then 9 by Bob:
  cell 5 is Alice's and stays hers. The same for the typed lines 5, 5, 1, after which the
  input ends at Alice's prompt.
\<close>

theorem board_invariants_witness:
  "card (dom (board (add_moves [(0, 5), (1, 5), (0, 1)] new_match))) \<le> 9
   \<and> board (add_moves [(0, 5), (1, 5), (0, 1)] new_match) 5 = Some Marker_X
   \<and> board (add_moves ([(0, 5), (1, 5), (0, 1)] @ [(1, 9)]) new_match) 5 = Some Marker_X
   \<and> round_loop quiet_shell [''5'', ''5'', ''1''] 0 new_match empty_db
       = (Raised EOFError, [],
          new_match\<lparr>board := [5 \<mapsto> Marker_X, 1 \<mapsto> Marker_O],
                     players := [alice\<lparr>moves := [5]\<rparr>, bob\<lparr>moves := [1]\<rparr>]\<rparr>,
          empty_db)
   \<and> card (dom (board (new_match\<lparr>board := [5 \<mapsto> Marker_X, 1 \<mapsto> Marker_O],
                     players := [alice\<lparr>moves := [5]\<rparr>, bob\<lparr>moves := [1]\<rparr>]\<rparr>))) \<le> 9"
proof -
  let ?g = "new_match\<lparr>board := [5 \<mapsto> Marker_X, 1 \<mapsto> Marker_O],
                     players := [alice\<lparr>moves := [5]\<rparr>, bob\<lparr>moves := [1]\<rparr>]\<rparr>"
  have h1: "board new_match = Map.empty"
    by (simp add: new_match_def Game_init_def Board_init_def)
  have h2: "\<forall>p \<in> set (players new_match). moves p = []"
    by (simp add: new_match_def alice_def bob_def)
  have h3: "\<forall>(k, m) \<in> set ([(0, 5), (1, 5), (0, 1)] @ [(1, 9)]).
      k < length (players new_match) \<and> 1 \<le> m \<and> m \<le> (9::int)"
    by (simp add: new_match_def)
  note t = board_invariants [OF h1 h2 h3]
  have b5: "board (add_moves [(0, 5), (1, 5), (0, 1)] new_match) 5 = Some Marker_X"
    by (simp add: place_def Board_add_move_def Player_add_move_def new_match_def Game_init_def
        Board_init_def alice_def bob_def)
  have k: "0 < length (players new_match)" by (simp add: new_match_def)
  have r: "round_loop quiet_shell [''5'', ''5'', ''1''] 0 new_match empty_db
       = (Raised EOFError, [], ?g, empty_db)"
    by (simp add: evals place_def Board_add_move_def Player_add_move_def conclude_def
        check_winner_def winning_combos_def satisfied_def Board_is_full_def next_player_def
        new_match_def Game_init_def Board_init_def alice_def bob_def)
  from t have "card (dom (board (add_moves [(0, 5), (1, 5), (0, 1)] new_match))) \<le> 9"
    by (rule conjunct1)
  moreover from t b5
  have "board (add_moves ([(0, 5), (1, 5), (0, 1)] @ [(1, 9)]) new_match) 5 = Some Marker_X"
    by blast
  moreover from t have engine: "\<forall>sh lines k db out rest g' db'.
           k < length (players new_match) \<and> round_loop sh lines k new_match db = (out, rest, g', db') \<longrightarrow>
             card (dom (board g')) \<le> 9
             \<and> (Board_is_full (board g') \<longleftrightarrow> dom (board g') = {1..9})
             \<and> (\<forall>p \<in> set (players g'). sorted (moves p) \<and> distinct (moves p))"
    by (elim conjE)
  from engine [rule_format, OF conjI [OF k r]]
  have "card (dom (board ?g)) \<le> 9" by (rule conjunct1)
  ultimately show ?thesis using b5 r by simp
qed

text \<open>
  Claim C10. From an empty board and two players with empty move lists, after any
  sequence of \<^verbatim>\<open>Board.add_move\<close> calls by the two (for any cells, refused calls
  included) the cells of the board are the cells of the two lists, the lists share no
  cell, every cell of a list carries the marker of its player, and the number of
  occupied cells, which \<^verbatim>\<open>is_full\<close> reads, is the sum of the lengths of the lists,
  which \<^verbatim>\<open>check_winner\<close> reads.
\<close>

theorem board_matches_move_lists:
  assumes "board g0 = Map.empty" and "players g0 = [a, b]" and "moves a = []" and "moves b = []"
    and "\<forall>(k, m) \<in> set calls. k < 2"
  shows "\<exists>a' b'. players (add_moves calls g0) = [a', b']
     \<and> marker a' = marker a \<and> marker b' = marker b
     \<and> dom (board (add_moves calls g0)) = set (moves a') \<union> set (moves b')
     \<and> set (moves a') \<inter> set (moves b') = {}
     \<and> (\<forall>c \<in> set (moves a'). board (add_moves calls g0) c = Some (marker a'))
     \<and> (\<forall>c \<in> set (moves b'). board (add_moves calls g0) c = Some (marker b'))
     \<and> card (dom (board (add_moves calls g0))) = length (moves a') + length (moves b')"
proof -
  let ?g = "add_moves calls g0"
  have "consistent g0" using assms(1-4) by (intro fresh_consistent) simp_all
  moreover have "\<forall>(k, m) \<in> set calls. k < length (players g0)" using assms(2,5) by (auto simp: numeral_2_eq_2)
  ultimately have con: "consistent ?g" by (rule add_moves_consistent)
  have "length (players ?g) = 2" using assms(2) by (simp add: add_moves_length)
  then obtain a' b' where ps: "players ?g = [a', b']"
    by (metis (no_types, opaque_lifting) One_nat_def Suc_1 length_0_conv length_Suc_conv)
  have mk: "marker a' = marker a" "marker b' = marker b"
    using add_moves_markers [of calls g0] ps assms(2) by simp_all
  from con ps have d: "dom (board ?g) = set (moves a') \<union> set (moves b')"
    by (auto simp: consistent_def less_Suc_eq numeral_2_eq_2)
  from con ps have i: "set (moves a') \<inter> set (moves b') = {}"
    by (auto simp: consistent_def less_Suc_eq numeral_2_eq_2)
  from con ps have ma: "\<forall>c \<in> set (moves a'). board ?g c = Some (marker a')"
    and mb: "\<forall>c \<in> set (moves b'). board ?g c = Some (marker b')"
    and di: "distinct (moves a')" "distinct (moves b')"
    by (auto simp: consistent_def less_Suc_eq numeral_2_eq_2)
  have "card (dom (board ?g)) = card (set (moves a')) + card (set (moves b'))"
    unfolding d using i by (simp add: card_Un_disjoint)
  then have "card (dom (board ?g)) = length (moves a') + length (moves b')"
    using di by (simp add: distinct_card)
  with ps mk d i ma mb show ?thesis by blast
qed

text \<open>The theorem at the calls 5 by Alice, 5 by Bob, 1 by Bob, 5 by Alice.\<close>

theorem board_matches_move_lists_witness:
  "players (add_moves [(0, 5), (1, 5), (1, 1), (0, 5)] new_match)
     = [alice\<lparr>moves := [5]\<rparr>, bob\<lparr>moves := [1]\<rparr>]
   \<and> dom (board (add_moves [(0, 5), (1, 5), (1, 1), (0, 5)] new_match)) = {5} \<union> {1}
   \<and> card (dom (board (add_moves [(0, 5), (1, 5), (1, 1), (0, 5)] new_match))) = 2"
proof -
  let ?g = "add_moves [(0, 5), (1, 5), (1, 1), (0, 5)] new_match"
  have h1: "board new_match = Map.empty"
    by (simp add: new_match_def Game_init_def Board_init_def)
  have h2: "players new_match = [alice, bob]" by (simp add: new_match_def)
  have h3: "moves alice = []" and h4: "moves bob = []" by (simp_all add: alice_def bob_def)
  have h5: "\<forall>(k, m) \<in> set [(0, 5), (1, 5), (1, 1), (0::nat, 5::int)]. k < 2" by simp
  have ps: "players ?g = [alice\<lparr>moves := [5]\<rparr>, bob\<lparr>moves := [1]\<rparr>]"
    by (simp add: place_def Board_add_move_def Player_add_move_def new_match_def Game_init_def
        Board_init_def alice_def bob_def)
  from board_matches_move_lists [OF h1 h2 h3 h4 h5] obtain a' b'
    where "players ?g = [a', b']"
      and d: "dom (board ?g) = set (moves a') \<union> set (moves b')"
      and c: "card (dom (board ?g)) = length (moves a') + length (moves b')"
    by blast
  with ps have "a' = alice\<lparr>moves := [5]\<rparr>" "b' = bob\<lparr>moves := [1]\<rparr>" by simp_all
  with d c ps show ?thesis by simp
qed

subsection \<open>Properties of the rematch\<close>

lemma round_loop_Completed_frame:
  "round_loop sh lines k g db = (Completed, rest', g', db') \<Longrightarrow>
     round_num g' = round_num g + 1 \<and> length (players g') = length (players g)"
proof (induction lines arbitrary: k g)
  case Nil
  then show ?case by simp
next
  case (Cons move rest)
  show ?case
  proof (cases rule: round_loop_step [of move sh rest k g db])
    case stop
    with Cons.prems show ?thesis by simp
  next
    case again
    with Cons.prems Cons.IH [of k g] show ?thesis by simp
  next
    case (raised e)
    with Cons.prems show ?thesis by simp
  next
    case (placed n g1)
    with Cons.prems Cons.IH [of "next_player k g1" g1] place_frame [of n k g True g1]
    show ?thesis by simp
  next
    case (ended n g1 r)
    with Cons.prems conclude_frame [of sh rest k g1 db Completed rest' g' db']
      place_frame [of n k g True g1]
    show ?thesis by simp
  qed
qed

lemma rematch_two:
  "players g = [a, b] \<Longrightarrow>
   rematch g = \<lparr>board = Map.empty,
                players = [b\<lparr>moves := [], marker := Marker_X\<rparr>, a\<lparr>moves := [], marker := Marker_O\<rparr>],
                winner = None, round_num = round_num g\<rparr>"
  by (simp add: rematch_def Game_init_def Board_init_def rebind_def Player_reset_moves_def)

text \<open>
  Claim C6. When a round of a two-player game is completed and the rematch menu returns
  index 0, \<^verbatim>\<open>Game.start\<close> goes on as the start of the new game, whose board is empty,
  whose winner is unset and whose round number is one more than that of the round just
  played. Its players are the two player objects in reverse order, each with an empty
  move list, the first with marker X and the second with marker O, and each with the name
  and the score it had when the round ended.
\<close>

theorem rematch_rebinds:
  assumes "length (players g) = 2"
    and "round_loop sh lines 0 g db = (Completed, rest, g1, db1)"
    and "pick_index sh (round_num g1) = 0"
  shows "\<exists>a b. players g1 = [a, b]
     \<and> Game_start sh lines g db = Game_start sh rest (rematch g1) db1
     \<and> rematch g1 =
         \<lparr>board = Map.empty,
          players = [b\<lparr>moves := [], marker := Marker_X\<rparr>, a\<lparr>moves := [], marker := Marker_O\<rparr>],
          winner = None, round_num = round_num g + 1\<rparr>"
proof -
  from round_loop_Completed_frame [OF assms(2)]
  have rn: "round_num g1 = round_num g + 1" and len: "length (players g1) = 2"
    using assms(1) by simp_all
  from len obtain a b where ps: "players g1 = [a, b]"
    by (metis (no_types, opaque_lifting) One_nat_def Suc_1 length_0_conv length_Suc_conv)
  have "Game_start sh lines g db = Game_start sh rest (rematch g1) db1"
    using assms by (subst Game_start.simps) simp
  with ps rn rematch_two [OF ps] show ?thesis by simp
qed

text \<open>
  The theorem at the round 1, 4, 2, 5, 3 that Alice wins: Bob comes first in the new game
  and holds X, Alice keeps her score of 1.
\<close>

theorem rematch_rebinds_witness:
  "round_loop eager_shell [''1'', ''4'', ''2'', ''5'', ''3'', ''''] 0 new_match empty_db =
     (Completed, [],
      \<lparr>board = [1 \<mapsto> Marker_X, 4 \<mapsto> Marker_O, 2 \<mapsto> Marker_X, 5 \<mapsto> Marker_O, 3 \<mapsto> Marker_X],
       players = [alice\<lparr>moves := [1, 2, 3], score := 1\<rparr>, bob\<lparr>moves := [4, 5]\<rparr>],
       winner = Some 0, round_num = 2\<rparr>,
      \<lparr>scores = [(str ''Alice'', 1)], history = [(str ''Alice'', str ''Bob'', Some (str ''Alice''), 1700000000)]\<rparr>)
   \<and> Game_start eager_shell [''1'', ''4'', ''2'', ''5'', ''3'', ''''] new_match empty_db =
       Game_start eager_shell []
         \<lparr>board = Map.empty,
          players = [bob\<lparr>marker := Marker_X\<rparr>, alice\<lparr>score := 1, marker := Marker_O\<rparr>],
          winner = None, round_num = 2\<rparr>
         \<lparr>scores = [(str ''Alice'', 1)], history = [(str ''Alice'', str ''Bob'', Some (str ''Alice''), 1700000000)]\<rparr>"
proof -
  let ?g1 = "\<lparr>board = [1 \<mapsto> Marker_X, 4 \<mapsto> Marker_O, 2 \<mapsto> Marker_X, 5 \<mapsto> Marker_O, 3 \<mapsto> Marker_X],
       players = [alice\<lparr>moves := [1, 2, 3], score := 1\<rparr>, bob\<lparr>moves := [4, 5]\<rparr>],
       winner = Some 0, round_num = 2\<rparr>"
  let ?db1 = "\<lparr>scores = [(str ''Alice'', 1)], history = [(str ''Alice'', str ''Bob'', Some (str ''Alice''), 1700000000)]\<rparr>"
  have h1: "length (players new_match) = 2" by (simp add: new_match_def)
  have h2: "round_loop eager_shell [''1'', ''4'', ''2'', ''5'', ''3'', ''''] 0 new_match empty_db =
     (Completed, [], ?g1, ?db1)"
    by (simp add: evals place_def Board_add_move_def Player_add_move_def conclude_def
        check_winner_def winning_combos_def satisfied_def Board_is_full_def next_player_def
        save_and_wait_def Game_save_def with_dbopen_result insert_history_def
        Player_add_score_result new_match_def Game_init_def Board_init_def alice_def bob_def
        empty_db_def eager_shell_def)
  have h3: "pick_index eager_shell (round_num ?g1) = 0" by (simp add: eager_shell_def)
  from rematch_rebinds [OF h1 h2 h3] obtain a b
    where ps: "players ?g1 = [a, b]"
      and st: "Game_start eager_shell [''1'', ''4'', ''2'', ''5'', ''3'', ''''] new_match empty_db
                = Game_start eager_shell [] (rematch ?g1) ?db1"
      and re: "rematch ?g1 =
         \<lparr>board = Map.empty,
          players = [b\<lparr>moves := [], marker := Marker_X\<rparr>, a\<lparr>moves := [], marker := Marker_O\<rparr>],
          winner = None, round_num = round_num new_match + 1\<rparr>"
    by blast
  from ps have "a = alice\<lparr>moves := [1, 2, 3], score := 1\<rparr>" "b = bob\<lparr>moves := [4, 5]\<rparr>" by simp_all
  with re have "rematch ?g1 = \<lparr>board = Map.empty,
          players = [bob\<lparr>marker := Marker_X\<rparr>, alice\<lparr>score := 1, marker := Marker_O\<rparr>],
          winner = None, round_num = 2\<rparr>"
    by (simp add: new_match_def Game_init_def alice_def bob_def)
  with st h2 show ?thesis by simp
qed

subsection \<open>Properties of the players' names\<close>

lemma do_title_concat:
  "cs = drop i s \<Longrightarrow>
   do_title U s prev i cs =
     concat (map (\<lambda>j. if (if j = i then prev else is_cased U (s ! (j - 1)))
                        then lower_ucs4 U s j (s ! j) else title_of U (s ! j))
                 [i..<length s])"
proof (induction cs arbitrary: i prev)
  case Nil
  then have "length s \<le> i" by simp
  then show ?case by simp
next
  case (Cons c cs)
  from Cons.prems have i: "i < length s"
    by (metis drop_all list.distinct(1) not_le)
  with Cons.prems have c: "s ! i = c" and cs: "cs = drop (Suc i) s"
    by (metis Cons_nth_drop_Suc list.inject)+
  have same: "(if (if j = Suc i then is_cased U c else is_cased U (s ! (j - 1)))
                 then lower_ucs4 U s j (s ! j) else title_of U (s ! j))
            = (if (if j = i then prev else is_cased U (s ! (j - 1)))
                 then lower_ucs4 U s j (s ! j) else title_of U (s ! j))"
    if "j \<in> set [Suc i..<length s]" for j
    using that c by auto
  have "do_title U s (is_cased U c) (Suc i) cs =
      concat (map (\<lambda>j. if (if j = i then prev else is_cased U (s ! (j - 1)))
                        then lower_ucs4 U s j (s ! j) else title_of U (s ! j))
                 [Suc i..<length s])"
    unfolding Cons.IH [OF cs, of "is_cased U c"]
    by (rule arg_cong [where f = concat], rule map_cong [OF refl]) (rule same)
  then show ?case
    using i c by (simp add: upt_conv_Cons)
qed

lemma title_concat:
  "title U s =
     concat (map (\<lambda>i. if 0 < i \<and> is_cased U (s ! (i - 1))
                        then lower_ucs4 U s i (s ! i) else title_of U (s ! i))
                 [0..<length s])"
proof -
  have "title U s = concat (map (\<lambda>j. if (if j = 0 then False else is_cased U (s ! (j - 1)))
                        then lower_ucs4 U s j (s ! j) else title_of U (s ! j))
                 [0..<length s])"
    unfolding title_def by (rule do_title_concat) simp
  also have "\<dots> = concat (map (\<lambda>i. if 0 < i \<and> is_cased U (s ! (i - 1))
                        then lower_ucs4 U s i (s ! i) else title_of U (s ! i))
                 [0..<length s])"
    by (rule arg_cong [where f = concat], rule map_cong [OF refl]) auto
  finally show ?thesis .
qed

lemma space_kept: "title_of U 32 = [32]" "lower_ucs4 U s i 32 = [32]"
  by (simp_all add: title_of_def lower_ucs4_def lower_letter_def upper_letter_def in_range_def)

lemma default_names_titled:
  "title U (str ''Player 1'') = str ''Player 1''" "title U (str ''Player 2'') = str ''Player 2''"
  by (simp_all add: title_def str_def title_of_def lower_ucs4_def is_cased_def lower_letter_def
      upper_letter_def in_range_def)

text \<open>
  Claim C8, as the code has it. For every raw name, whatever the case tables beyond
  code point 255, the name of the constructed player is \<^verbatim>\<open>raw.title()\<close>: the raw name
  with every character replaced, in place, by its lower-case form when it follows a
  cased character and by its title-case form otherwise. A space is replaced by a space
  wherever it stands, at the ends as well, so nothing is trimmed. When neither name
  lower-cases to \<^verbatim>\<open>?stop\<close>, \<^verbatim>\<open>main\<close> builds the two players, and it replaces a name
  by \<^verbatim>\<open>Player 1\<close> or \<^verbatim>\<open>Player 2\<close> only when the name is the empty string; the
  defaults are their own title-case form.
\<close>

theorem player_name_title_cased:
  "name (Player_init U raw mk) = title U raw
   \<and> title U raw =
       concat (map (\<lambda>i. if 0 < i \<and> is_cased U (raw ! (i - 1))
                          then lower_ucs4 U raw i (raw ! i) else title_of U (raw ! i))
                   [0..<length raw])
   \<and> (\<forall>i < length raw. raw ! i = 32 \<longrightarrow>
         (if 0 < i \<and> is_cased U (raw ! (i - 1))
          then lower_ucs4 U raw i (raw ! i) else title_of U (raw ! i)) = [32])
   \<and> main_players U name1 name2 =
       (if str_lower U name1 = str ''?stop'' \<or> str_lower U name2 = str ''?stop'' then None
        else Some [Player_init U (if name1 = [] then str ''Player 1'' else name1) Marker_X,
                   Player_init U (if name2 = [] then str ''Player 2'' else name2) Marker_O])
   \<and> title U (str ''Player 1'') = str ''Player 1''
   \<and> title U (str ''Player 2'') = str ''Player 2''"
proof (intro conjI)
  show "name (Player_init U raw mk) = title U raw"
    by (simp add: Player_init_def)
  show "title U raw =
       concat (map (\<lambda>i. if 0 < i \<and> is_cased U (raw ! (i - 1))
                          then lower_ucs4 U raw i (raw ! i) else title_of U (raw ! i))
                   [0..<length raw])"
    by (rule title_concat)
  show "\<forall>i < length raw. raw ! i = 32 \<longrightarrow>
         (if 0 < i \<and> is_cased U (raw ! (i - 1))
          then lower_ucs4 U raw i (raw ! i) else title_of U (raw ! i)) = [32]"
    by (simp add: space_kept)
  show "main_players U name1 name2 =
       (if str_lower U name1 = str ''?stop'' \<or> str_lower U name2 = str ''?stop'' then None
        else Some [Player_init U (if name1 = [] then str ''Player 1'' else name1) Marker_X,
                   Player_init U (if name2 = [] then str ''Player 2'' else name2) Marker_O])"
    by (simp add: main_players_def default_name_def)
  show "title U (str ''Player 1'') = str ''Player 1''" "title U (str ''Player 2'') = str ''Player 2''"
    by (rule default_names_titled)+
qed

text \<open>The names of the examples, title-cased and lower-cased.\<close>

lemma name_evals:
  "title plain_casing (str '' bob mcDonald'') = str '' Bob Mcdonald''"
  "title plain_casing (str '' bob '') = str '' Bob ''"
  "title plain_casing (str ''   '') = str ''   ''"
  "title plain_casing [223, 97, 8364] = [83, 115, 97, 8364]"
  "str_lower plain_casing (str '' bob mcDonald'') \<noteq> str ''?stop''"
  "str_lower plain_casing (str ''   '') \<noteq> str ''?stop''"
  "str_lower plain_casing [] \<noteq> str ''?stop''"
  "str_lower plain_casing (str ''?Stop'') = str ''?stop''"
  by (simp_all add: title_def str_lower_def str_def title_of_def lower_ucs4_def is_cased_def
      lower_letter_def upper_letter_def in_range_def plain_casing_def)

text \<open>
  The theorem at a name with a leading space, at the name of the three code points sharp
  s, a, euro sign (223, 97, 8364), at an empty second name, and at a first name that is
  the stop word.
\<close>

theorem player_name_title_cased_witness:
  "name (Player_init plain_casing (str '' bob mcDonald'') Marker_X) = str '' Bob Mcdonald''
   \<and> name (Player_init plain_casing [223, 97, 8364] Marker_O) = [83, 115, 97, 8364]
   \<and> main_players plain_casing (str '' bob mcDonald'') [] =
        Some [\<lparr>name = str '' Bob Mcdonald'', marker = Marker_X, moves = [], score = 0\<rparr>,
              \<lparr>name = str ''Player 2'', marker = Marker_O, moves = [], score = 0\<rparr>]
   \<and> main_players plain_casing (str ''?Stop'') (str ''Bob'') = None"
proof -
  note t1 = player_name_title_cased [where U = plain_casing and raw = "str '' bob mcDonald''"
      and mk = Marker_X and ?name1.0 = "str '' bob mcDonald''" and ?name2.0 = "[]"]
  note t2 = player_name_title_cased [where U = plain_casing and raw = "[223, 97, 8364]"
      and mk = Marker_O and ?name1.0 = "str ''?Stop''" and ?name2.0 = "str ''Bob''"]
  from t1 have "name (Player_init plain_casing (str '' bob mcDonald'') Marker_X)
      = title plain_casing (str '' bob mcDonald'')"
    by (rule conjunct1)
  then have a: "name (Player_init plain_casing (str '' bob mcDonald'') Marker_X) = str '' Bob Mcdonald''"
    by (simp only: name_evals)
  from t2 have "name (Player_init plain_casing [223, 97, 8364] Marker_O)
      = title plain_casing [223, 97, 8364]"
    by (rule conjunct1)
  then have b: "name (Player_init plain_casing [223, 97, 8364] Marker_O) = [83, 115, 97, 8364]"
    by (simp only: name_evals)
  from t1 have "main_players plain_casing (str '' bob mcDonald'') [] =
       (if str_lower plain_casing (str '' bob mcDonald'') = str ''?stop''
           \<or> str_lower plain_casing [] = str ''?stop'' then None
        else Some [Player_init plain_casing
                     (if str '' bob mcDonald'' = [] then str ''Player 1'' else str '' bob mcDonald'') Marker_X,
                   Player_init plain_casing (if ([]::unicode) = [] then str ''Player 2'' else []) Marker_O])"
    by (elim conjE)
  then have c: "main_players plain_casing (str '' bob mcDonald'') [] =
        Some [\<lparr>name = str '' Bob Mcdonald'', marker = Marker_X, moves = [], score = 0\<rparr>,
              \<lparr>name = str ''Player 2'', marker = Marker_O, moves = [], score = 0\<rparr>]"
    by (simp add: name_evals default_names_titled Player_init_def)
  from t2 have "main_players plain_casing (str ''?Stop'') (str ''Bob'') =
       (if str_lower plain_casing (str ''?Stop'') = str ''?stop''
           \<or> str_lower plain_casing (str ''Bob'') = str ''?stop'' then None
        else Some [Player_init plain_casing
                     (if str ''?Stop'' = [] then str ''Player 1'' else str ''?Stop'') Marker_X,
                   Player_init plain_casing
                     (if str ''Bob'' = [] then str ''Player 2'' else str ''Bob'') Marker_O])"
    by (elim conjE)
  then have d: "main_players plain_casing (str ''?Stop'') (str ''Bob'') = None"
    by (simp add: name_evals)
  from a b c d show ?thesis by simp
qed

text \<open>
  Claim C8 as the specification words it fails: the name \<^verbatim>\<open>" bob "\<close> keeps its two
  spaces, and a name of three spaces is not replaced by \<^verbatim>\<open>Player 1\<close>.
\<close>

theorem player_name_not_trimmed_counterexample:
  "name (Player_init plain_casing (str '' bob '') Marker_X) = str '' Bob ''
   \<and> name (Player_init plain_casing (str '' bob '') Marker_X) \<noteq> str ''Bob''
   \<and> map_option (map name) (main_players plain_casing (str ''   '') [])
       = Some [str ''   '', str ''Player 2'']"
  by (simp add: Player_init_def main_players_def default_name_def name_evals default_names_titled)

end
